(* ===== verification/VDB_Prelude.thy ===== *)
theory VDB_Prelude
  imports Main "HOL-Library.Word" "HOL-Library.Monad_Syntax"
begin

unbundle bit_operations_syntax

section \<open>Shared types, the C library functions the program calls, generic lemmas\<close>

text \<open>
  The machine types of the program (\<open>debugger/registers.h\<close>, \<open>debugger/dwarf_info.h\<close>), the functions of
  the C standard library that it calls on strings and numbers, and lemmas on lists, words and
  little-endian bytes that several components share.

  A C string is the list of its characters without the terminating zero byte; a character
  array keeps its zero bytes. A \<open>char *\<close> that may be \<open>NULL\<close> is a \<open>string option\<close>. The
  value \<open>None\<close> of a function that models a whole C function means that the debugger process
  itself leaves the semantics of C there: a \<open>NULL\<close> dereference, an access outside an array,
  or a division trap.
\<close>

subsection \<open>Named collections\<close>

named_theorems c_lib "C library functions and their evaluation"
named_theorems buf_ops "operations on a buffer and what they keep"
named_theorems stk_ops "operations on the expression stack and what they keep"
named_theorems dbg_ops "operations of the debugger on the debugged process"

subsection \<open>Machine types\<close>

type_synonym UWORD = "64 word"
type_synonym WORD = "64 word"
type_synonym C_int = int
type_synonym addr = "64 word"
type_synonym byte = "8 word"

text \<open>The result codes of the libdwarf interface, as its documentation fixes them.\<close>

abbreviation (input) DW_DLV_OK :: C_int where "DW_DLV_OK \<equiv> 0"
abbreviation (input) DW_DLV_NO_ENTRY :: C_int where "DW_DLV_NO_ENTRY \<equiv> -1"
abbreviation (input) DW_DLV_ERROR :: C_int where "DW_DLV_ERROR \<equiv> 1"


subsection \<open>C strings and character arrays\<close>

abbreviation (input) NUL :: char where "NUL \<equiv> CHR 0x00"

definition cstr :: "string \<Rightarrow> nat \<Rightarrow> string option" where
  "cstr a i = (if i < length a \<and> NUL \<in> set (drop i a)
     then Some (takeWhile (\<lambda>c. c \<noteq> NUL) (drop i a)) else None)"

text \<open>
  \<open>cstr a i\<close> is the string that \<open>a + i\<close> points to, read up to its zero byte; a read that
  never meets one leaves the array. \<open>rd\<close> and \<open>wr\<close> are one access to an array.
\<close>

definition rd :: "string option \<Rightarrow> nat \<Rightarrow> char option" where
  "rd p i = (case p of None \<Rightarrow> None | Some a \<Rightarrow> if i < length a then Some (a ! i) else None)"

definition wr :: "string option \<Rightarrow> nat \<Rightarrow> char \<Rightarrow> string option option" where
  "wr p i c = (case p of None \<Rightarrow> None
     | Some a \<Rightarrow> if i < length a then Some (Some (a[i := c])) else None)"

definition strncmp_eq :: "nat \<Rightarrow> string \<Rightarrow> string \<Rightarrow> bool" where
  "strncmp_eq n a b = (take n a = take n b)"

subsection \<open>Number parsing: \<^verbatim>\<open>strtol\<close> and \<^verbatim>\<open>strtoll\<close>\<close>

definition is_space :: "char \<Rightarrow> bool" where
  "is_space c = (of_char c = (32::nat) \<or> (9 \<le> (of_char c :: nat) \<and> of_char c \<le> (13::nat)))"

definition digit_of :: "char \<Rightarrow> nat option" where
  "digit_of c = (let n = of_char c :: nat in
     if 48 \<le> n \<and> n \<le> 57 then Some (n - 48)
     else if 97 \<le> n \<and> n \<le> 122 then Some (n - 87)
     else if 65 \<le> n \<and> n \<le> 90 then Some (n - 55) else None)"

definition is_digit :: "nat \<Rightarrow> char \<Rightarrow> bool" where
  "is_digit b c = (case digit_of c of None \<Rightarrow> False | Some d \<Rightarrow> d < b)"

definition digits_val :: "nat \<Rightarrow> string \<Rightarrow> int" where
  "digits_val b ds = foldl (\<lambda>a c. a * int b + (case digit_of c of None \<Rightarrow> 0 | Some d \<Rightarrow> int d)) 0 ds"

definition skip_0x :: "nat \<Rightarrow> string \<Rightarrow> string" where
  "skip_0x b s = (if b = 16 \<and> 3 \<le> length s \<and> s ! 0 = CHR ''0''
       \<and> (s ! 1 = CHR ''x'' \<or> s ! 1 = CHR ''X'') \<and> is_digit 16 (s ! 2)
     then drop 2 s else s)"

definition clamp_ll :: "int \<Rightarrow> int" where
  "clamp_ll v = max (- (2 ^ 63)) (min (2 ^ 63 - 1) v)"

definition strtoll :: "nat \<Rightarrow> string \<Rightarrow> int \<times> string" where
  "strtoll b s =
     (let s1 = dropWhile is_space s;
          neg = (s1 \<noteq> [] \<and> hd s1 = CHR ''-'');
          s2 = (if s1 \<noteq> [] \<and> (hd s1 = CHR ''-'' \<or> hd s1 = CHR ''+'') then tl s1 else s1);
          s3 = skip_0x b s2;
          ds = takeWhile (is_digit b) s3
      in if ds = [] then (0, s)
         else (clamp_ll (if neg then - digits_val b ds else digits_val b ds),
               drop (length ds) s3))"

text \<open>
  The second component of \<^term>\<open>strtoll b s\<close> is the string the end pointer is left at;
  \<open>long\<close> and \<open>long long\<close> are both 64 bits wide here, so \<open>strtol\<close> is the same function.
\<close>

lemma strtoll_rest_length [c_lib]: "length (snd (strtoll b s)) \<le> length s"
proof -
  have tl1: "length (tl xs) \<le> length xs" for xs :: string by simp
  have "length (dropWhile is_space s) \<le> length s" by (rule length_dropWhile_le)
  then show ?thesis
    by (auto simp: strtoll_def Let_def skip_0x_def)
qed

lemma digits_val_snoc [c_lib]:
  "digits_val b (ds @ [c]) =
     digits_val b ds * int b + (case digit_of c of None \<Rightarrow> 0 | Some d \<Rightarrow> int d)"
  by (simp add: digits_val_def)

lemma clamp_ll_id [c_lib]: "- (2 ^ 63) \<le> v \<Longrightarrow> v < 2 ^ 63 \<Longrightarrow> clamp_ll v = v"
  by (simp add: clamp_ll_def)

lemma clamp_ll_range [c_lib]: "- (2 ^ 63) \<le> clamp_ll v \<and> clamp_ll v < 2 ^ 63"
  by (simp add: clamp_ll_def)

lemma rd_Some [c_lib]: "rd (Some a) i = (if i < length a then Some (a ! i) else None)"
  by (simp add: rd_def)

lemma wr_Some [c_lib]:
  "wr (Some a) i c = (if i < length a then Some (Some (a[i := c])) else None)"
  by (simp add: wr_def)

subsection \<open>Bytes of a word in memory order\<close>

definition byte_of :: "UWORD \<Rightarrow> nat \<Rightarrow> byte" where
  "byte_of w j = ucast (drop_bit (8 * j) w)"

lemma bit_byte_of [simp]: "bit (byte_of w j) n \<longleftrightarrow> n < 8 \<and> bit w (8 * j + n)"
  by (auto simp: byte_of_def bit_simps dest: bit_imp_le_length)

lemma word_eq_byteI:
  assumes "\<And>j. j < 8 \<Longrightarrow> byte_of a j = byte_of b j"
  shows "a = b"
proof (rule bit_word_eqI)
  fix n assume n: "n < LENGTH(64)"
  let ?j = "n div 8" and ?m = "n mod 8"
  have j: "?j < 8" and m: "?m < 8" and nd: "8 * ?j + ?m = n"
    using n by auto
  from assms [OF j] have "bit (byte_of a ?j) ?m = bit (byte_of b ?j) ?m" by simp
  with m nd show "bit a n = bit b n" by simp
qed

subsection \<open>Numbers as text: \<^verbatim>\<open>%llu\<close>, \<^verbatim>\<open>%llx\<close>, \<^verbatim>\<open>%lli\<close>\<close>

definition digit_char :: "nat \<Rightarrow> char" where
  "digit_char d = ''0123456789abcdef'' ! d"

text \<open>Digits in base \<open>b + 2\<close>.\<close>

fun nat_text :: "nat \<Rightarrow> nat \<Rightarrow> string" where
  "nat_text b n = (if n < b + 2 then [digit_char n] else nat_text b (n div (b + 2)) @ [digit_char (n mod (b + 2))])"

declare nat_text.simps [simp del]

definition print_llu :: "UWORD \<Rightarrow> string" where
  "print_llu w = nat_text 8 (unat w)"

definition print_llx :: "UWORD \<Rightarrow> string" where
  "print_llx w = nat_text 14 (unat w)"

definition print_lli :: "UWORD \<Rightarrow> string" where
  "print_lli w = (if sint w < 0 then CHR ''-'' # nat_text 8 (nat (- sint w)) else nat_text 8 (nat (sint w)))"

lemma digit_char_of: "d < 16 \<Longrightarrow> digit_of (digit_char d) = Some d \<and> \<not> is_space (digit_char d)
    \<and> digit_char d \<noteq> CHR ''-'' \<and> digit_char d \<noteq> CHR ''+'' \<and> digit_char d \<noteq> CHR ''x'' \<and> digit_char d \<noteq> CHR ''X''
    \<and> digit_char d \<noteq> NUL \<and> (digit_char d = CHR ''0'' \<longleftrightarrow> d = 0)"
proof -
  assume "d < 16"
  then have "d = 0 \<or> d = 1 \<or> d = 2 \<or> d = 3 \<or> d = 4 \<or> d = 5 \<or> d = 6 \<or> d = 7 \<or> d = 8 \<or> d = 9 \<or> d = 10
      \<or> d = 11 \<or> d = 12 \<or> d = 13 \<or> d = 14 \<or> d = 15" by presburger
  then show ?thesis
    by (elim disjE) (simp_all add: digit_of_def digit_char_def is_space_def)
qed

lemma nat_text_nonempty [simp]: "nat_text b n \<noteq> []"
  by (subst nat_text.simps) simp

lemma nat_text_digits: "\<forall>c\<in>set (nat_text b n). \<exists>d<b + 2. c = digit_char d"
proof (induction b n rule: nat_text.induct)
  case (1 b n)
  show ?case
  proof (cases "n < b + 2")
    case True
    then show ?thesis by (subst nat_text.simps) auto
  next
    case False
    with 1 have "\<forall>c\<in>set (nat_text b (n div (b + 2))). \<exists>d<b + 2. c = digit_char d" by simp
    moreover have "n mod (b + 2) < b + 2" by (rule mod_less_divisor) simp
    then have "\<exists>d<b + 2. digit_char (n mod (b + 2)) = digit_char d" by blast
    ultimately show ?thesis using False by (subst nat_text.simps) (simp only: if_False set_append list.set ball_Un, simp)
  qed
qed

lemma nat_text_val: "b \<le> 14 \<Longrightarrow> digits_val (b + 2) (nat_text b n) = int n"
proof (induction b n rule: nat_text.induct)
  case (1 b n)
  show ?case
  proof (cases "n < b + 2")
    case True
    with 1 show ?thesis using digit_char_of [of n]
      by (subst nat_text.simps) (simp add: digits_val_def)
  next
    case False
    have m: "n mod (b + 2) < 16" by (rule less_le_trans [OF mod_less_divisor]) (use 1(2) in simp_all)
    have "digits_val (b + 2) (nat_text b n) = int (n div (b + 2)) * int (b + 2) + int (n mod (b + 2))"
      using False 1 digit_char_of [OF m] by (subst nat_text.simps) (simp add: digits_val_snoc)
    also have "\<dots> = int n" by (simp only: of_nat_mult [symmetric] of_nat_add [symmetric] div_mult_mod_eq)
    finally show ?thesis .
  qed
qed

text \<open>The digits are read back whole, by a parser in the same base.\<close>

lemma nat_text_parts:
  assumes "b \<le> 14"
  shows "takeWhile (is_digit (b + 2)) (nat_text b n) = nat_text b n" "skip_0x (b + 2) (nat_text b n) = nat_text b n"
    "\<not> is_space (hd (nat_text b n))" "hd (nat_text b n) \<noteq> CHR ''-''" "hd (nat_text b n) \<noteq> CHR ''+''"
proof -
  have dig: "is_digit (b + 2) c" "\<not> is_space c" "c \<noteq> CHR ''-''" "c \<noteq> CHR ''+''" "c \<noteq> CHR ''x''" "c \<noteq> CHR ''X''"
    if "c \<in> set (nat_text b n)" for c
  proof -
    from nat_text_digits [of b n] that obtain d where d: "d < b + 2" "c = digit_char d" by blast
    with assms have "d < 16" by simp
    from digit_char_of [OF this] d show "is_digit (b + 2) c" "\<not> is_space c" "c \<noteq> CHR ''-''" "c \<noteq> CHR ''+''"
      "c \<noteq> CHR ''x''" "c \<noteq> CHR ''X''" by (simp_all add: is_digit_def)
  qed
  show "takeWhile (is_digit (b + 2)) (nat_text b n) = nat_text b n" using dig(1) by simp
  have "nat_text b n ! 1 \<noteq> CHR ''x'' \<and> nat_text b n ! 1 \<noteq> CHR ''X''" if "3 \<le> length (nat_text b n)"
    using dig(5,6) [of "nat_text b n ! 1"] nth_mem [of 1 "nat_text b n"] that by auto
  then show "skip_0x (b + 2) (nat_text b n) = nat_text b n" by (auto simp: skip_0x_def)
  have "hd (nat_text b n) \<in> set (nat_text b n)" by simp
  from dig(2-4) [OF this] show "\<not> is_space (hd (nat_text b n))" "hd (nat_text b n) \<noteq> CHR ''-''"
    "hd (nat_text b n) \<noteq> CHR ''+''" by auto
qed

lemma strtoll_nat_text:
  assumes "b \<le> 14"
  shows "strtoll (b + 2) (nat_text b n) = (clamp_ll (int n), [])"
    "strtoll (b + 2) (CHR ''-'' # nat_text b n) = (clamp_ll (- int n), [])"
proof -
  have dw: "dropWhile is_space (nat_text b n) = nat_text b n"
    using nat_text_parts(3) [OF assms, of n] by (cases "nat_text b n") auto
  note p = nat_text_parts [OF assms, of n] nat_text_val [OF assms, of n]
  show "strtoll (b + 2) (nat_text b n) = (clamp_ll (int n), [])"
    using p by (simp add: strtoll_def Let_def dw del: add_2_eq_Suc' takeWhile_eq_all_conv)
  have "\<not> is_space (CHR ''-'')" by (simp add: is_space_def)
  then show "strtoll (b + 2) (CHR ''-'' # nat_text b n) = (clamp_ll (- int n), [])"
    using p by (simp add: strtoll_def Let_def del: add_2_eq_Suc' takeWhile_eq_all_conv)
qed

lemma nat_text_clean: "b \<le> 14 \<Longrightarrow> NUL \<notin> set (nat_text b n)"
proof
  assume "b \<le> 14" "NUL \<in> set (nat_text b n)"
  with nat_text_digits [of b n] obtain d where d: "d < b + 2" "NUL = digit_char d" by blast
  with \<open>b \<le> 14\<close> have "d < 16" by simp
  from digit_char_of [OF this] d(2) show False by simp
qed

end
