(* ===== verification/Cmdline.thy ===== *)
theory Cmdline
  imports VDB_Prelude
begin

section \<open>Input buffers, the tokenizer and the command words (\<^verbatim>\<open>debugger/cmdline.c\<close>)\<close>

text \<open>
  A \<^verbatim>\<open>Buffer\<close> is a character array with two cursors. \<open>parse_input\<close> copies characters of an
  input line into the command buffer until a semicolon, turning each run of white space into one
  zero byte; \<open>next_token\<close> then hands out the zero-terminated tokens one by one. The theory shows
  that no access leaves the arrays, that the tokens of a command are exactly the words of its text,
  and what the matchers and \<open>merge_and_check_path\<close> accept.

  Cursors and sizes are C integers that never become negative (every decrement is guarded), so
  they are natural numbers here.
\<close>

subsection \<open>Data\<close>

definition CMD_MAX_SIZE :: nat where "CMD_MAX_SIZE = 4096 + 4096 + 256"

datatype COMMAND = CONTINUE | REG | BREAKPOINT | EXIT | STEP | WHERE | FINISH | NEXT
  | BACKTRACE | VAR | PEEK_DATA | INVALID_CMD

datatype BREAKPOINT_OPTIONS = ENABLE_BREAKPOINT | DISABLE_BREAKPOINT
  | BREAKPOINT_ARG_MEMADDR | BREAKPOINT_ARG_LINENUM | INVALID_BREAKPOINT_OPT

datatype REGISTER_OPTIONS = READ_REGISTER | WRITE_REGISTER
  | REGISTER_ARG_ABBR | REGISTER_ARG_DWARF | REGISTER_ARG_ALL | INVALID_REGISTER_OPT

datatype WHERE_OPTIONS = WHERE_ARG_FUNC | WHERE_ARG_ADDR | WHERE_ARG_LINE | INVALID_WHERE_OPT

datatype VAR_OPTIONS = GET_VAR_ADDR_OPTION | SET_VAR_ADDR_OPTION | GET_VAR_VALUE_OPTION
  | SET_VAR_VALUE_OPTION | PARAM_VAR_OPTION | LOCAL_VAR_OPTION | INVALID_VAR_OPTION

record Buffer =
  data :: "string option"
  buf_size :: nat
  rseek :: nat
  wseek :: nat

subsection \<open>Buffer operations\<close>

text \<open>
  \<open>new_buffer\<close> takes the contents of the freshly allocated block as \<open>junk\<close>; the byte behind it
  is set to zero. A size of 0 allocates nothing.
\<close>

definition new_buffer :: "nat \<Rightarrow> string \<Rightarrow> Buffer" where
  "new_buffer n junk = (if n > 0
     then \<lparr>data = Some (take n (junk @ replicate n NUL) @ [NUL]), buf_size = n, rseek = 0, wseek = 0\<rparr>
     else \<lparr>data = None, buf_size = 0, rseek = 0, wseek = 0\<rparr>)"

definition peek_buffer :: "Buffer \<Rightarrow> char option" where
  "peek_buffer b = (if rseek b \<ge> buf_size b then Some NUL else rd (data b) (rseek b))"

definition peek_buffer_back :: "Buffer \<Rightarrow> char option" where
  "peek_buffer_back b = (if buf_size b = 0 \<or> wseek b = 0 then Some NUL
     else rd (data b) (wseek b - 1))"

definition read_from_buffer :: "Buffer \<Rightarrow> (char \<times> Buffer) option" where
  "read_from_buffer b =
     (if buf_size b = 0 then do {
        c \<leftarrow> rd (data b) (rseek b);
        if c \<noteq> NUL then Some (c, b\<lparr>rseek := rseek b + 1\<rparr>) else Some (NUL, b)
      }
      else if rseek b < buf_size b then do {
        c \<leftarrow> rd (data b) (rseek b);
        Some (c, b\<lparr>rseek := rseek b + 1\<rparr>)
      }
      else Some (NUL, b))"

definition write_to_buffer :: "Buffer \<Rightarrow> char \<Rightarrow> (int \<times> Buffer) option" where
  "write_to_buffer b c =
     (if wseek b \<ge> buf_size b then Some (1, b)
      else do {
        d \<leftarrow> wr (data b) (wseek b) c;
        Some (0, b\<lparr>data := d, wseek := wseek b + 1\<rparr>)
      })"

definition pop_buffer :: "Buffer \<Rightarrow> (char \<times> Buffer) option" where
  "pop_buffer b = (if wseek b = 0 then Some (NUL, b)
     else do { c \<leftarrow> rd (data b) (wseek b); Some (c, b\<lparr>wseek := wseek b - 1\<rparr>) })"

definition reset_seek :: "Buffer \<Rightarrow> Buffer" where
  "reset_seek b = b\<lparr>rseek := 0, wseek := 0\<rparr>"

text \<open>
  \<open>poll_input\<close> gets its line from the line editor, which returns a zero-terminated string or
  \<open>NULL\<close> at the end of the input.
\<close>

definition poll_input :: "string option \<Rightarrow> Buffer \<Rightarrow> int \<times> Buffer" where
  "poll_input input line = (case input of
     Some s \<Rightarrow> (1, line\<lparr>data := Some (s @ [NUL])\<rparr>)
   | None \<Rightarrow> (0, line\<lparr>data := None\<rparr>))"

definition is_whitespace :: "char \<Rightarrow> bool" where
  "is_whitespace c = (c = CHR '' '' \<or> c = CHR 0x09 \<or> c = CHR 0x0D \<or> c = CHR 0x0A)"

subsection \<open>Splitting a line into the command buffer\<close>

lemma read_progress:
  assumes "read_from_buffer b = Some (c, b')" "c \<noteq> NUL"
  shows "data b' = data b \<and> rseek b < length (the (data b)) \<and> rseek b' = Suc (rseek b)"
  using assms
  by (auto simp: read_from_buffer_def rd_def split: if_splits option.splits Option.bind_splits)

text \<open>The \<open>while\<close> loop of \<open>parse_input\<close>, over the command buffer and the line.\<close>

function parse_loop :: "Buffer \<Rightarrow> Buffer \<Rightarrow> (int \<times> Buffer \<times> Buffer) option" where
  "parse_loop buffer line =
     (case read_from_buffer line of
        None \<Rightarrow> None
      | Some (c, line') \<Rightarrow>
          if c = NUL then do {
            back \<leftarrow> peek_buffer_back buffer;
            if back \<noteq> NUL then do {
              (_, buffer') \<leftarrow> write_to_buffer buffer NUL;
              Some (0, buffer', line')
            } else Some (0, buffer, line')
          }
          else if c = CHR '';'' then do {
            (_, buffer') \<leftarrow> write_to_buffer buffer NUL;
            Some (1, buffer', line')
          }
          else if \<not> is_whitespace c then
            (case write_to_buffer buffer c of
               None \<Rightarrow> None
             | Some (w, buffer') \<Rightarrow>
                 if w \<noteq> 0 then Some (-1, buffer', line') else parse_loop buffer' line')
          else
            (case peek_buffer_back buffer of
               None \<Rightarrow> None
             | Some back \<Rightarrow>
                 if back \<noteq> NUL then
                   (case write_to_buffer buffer NUL of
                      None \<Rightarrow> None
                    | Some (w, buffer') \<Rightarrow>
                        if w \<noteq> 0 then Some (-1, buffer', line') else parse_loop buffer' line')
                 else parse_loop buffer line'))"
  by pat_completeness auto
termination
  by (relation "measure (\<lambda>(_, line). length (the (data line)) - rseek line)")
     (auto dest!: read_progress)

declare parse_loop.simps [simp del]

text \<open>A \<open>NULL\<close> line stands for the end of the input: \<open>strcpy\<close> puts \<open>exit\<close> into the buffer.\<close>

definition strcpy_at0 :: "string option \<Rightarrow> string \<Rightarrow> string option option" where
  "strcpy_at0 p s = (case p of None \<Rightarrow> None
     | Some a \<Rightarrow> if length s < length a then Some (Some (s @ NUL # drop (Suc (length s)) a)) else None)"

definition parse_input :: "Buffer \<Rightarrow> Buffer \<Rightarrow> (int \<times> Buffer \<times> Buffer) option" where
  "parse_input buffer line =
     (if data line = None then do {
        d \<leftarrow> strcpy_at0 (data buffer) ''exit'';
        Some (1, buffer\<lparr>data := d\<rparr>, line)
      }
      else parse_loop buffer line)"

subsection \<open>Handing out tokens\<close>

function skip_token :: "Buffer \<Rightarrow> Buffer option" where
  "skip_token b = (case read_from_buffer b of
     None \<Rightarrow> None
   | Some (c, b') \<Rightarrow> if c \<noteq> NUL then skip_token b' else Some b')"
  by pat_completeness auto
termination
  by (relation "measure (\<lambda>b. length (the (data b)) - rseek b)") (auto dest!: read_progress)

declare skip_token.simps [simp del]

text \<open>
  The returned pointer is an offset into the buffer's array; \<open>next_token\<close> of a buffer without an
  array dereferences \<open>NULL\<close>. (The caller's buffer itself is never \<open>NULL\<close>.)
\<close>

definition next_token :: "Buffer \<Rightarrow> (nat option \<times> Buffer) option" where
  "next_token b = do {
     c \<leftarrow> rd (data b) (rseek b);
     if c = NUL then Some (None, b)
     else if buf_size b \<noteq> 0 \<and> rseek b \<ge> wseek b then Some (None, b)
     else do {
       b' \<leftarrow> skip_token b;
       c0 \<leftarrow> rd (data b) (rseek b);
       if c0 = NUL then Some (None, b') else Some (Some (rseek b), b')
     }
   }"

text \<open>The string behind a token pointer, for the functions that read it.\<close>

definition tok_str :: "Buffer \<Rightarrow> nat option \<Rightarrow> string option option" where
  "tok_str b t = (case t of None \<Rightarrow> Some None
     | Some i \<Rightarrow> (case data b of None \<Rightarrow> None
                 | Some a \<Rightarrow> map_option Some (cstr a i)))"

subsection \<open>Matching words\<close>

text \<open>A matcher that does not test for \<open>NULL\<close> dereferences it in \<open>strcmp\<close>.\<close>

definition match_command :: "string option \<Rightarrow> COMMAND" where
  "match_command buffer = (case buffer of None \<Rightarrow> INVALID_CMD | Some s \<Rightarrow>
     if s = ''continue'' then CONTINUE
     else if s = ''reg'' then REG
     else if s = ''exit'' then EXIT
     else if s = ''break'' then BREAKPOINT
     else if s = ''step'' then STEP
     else if s = ''where'' then WHERE
     else if s = ''finish'' then FINISH
     else if s = ''next'' then NEXT
     else if s = ''backtrace'' then BACKTRACE
     else if s = ''var'' then VAR
     else if s = ''peek'' then PEEK_DATA
     else INVALID_CMD)"

definition match_breakpoint_option :: "string option \<Rightarrow> BREAKPOINT_OPTIONS" where
  "match_breakpoint_option buffer = (case buffer of None \<Rightarrow> INVALID_BREAKPOINT_OPT | Some s \<Rightarrow>
     if s = ''enable'' then ENABLE_BREAKPOINT
     else if s = ''disable'' then DISABLE_BREAKPOINT
     else if s = ''addr'' then BREAKPOINT_ARG_MEMADDR
     else if s = ''line'' then BREAKPOINT_ARG_LINENUM
     else INVALID_BREAKPOINT_OPT)"

definition match_register_option :: "string option \<Rightarrow> REGISTER_OPTIONS" where
  "match_register_option buffer = (case buffer of None \<Rightarrow> INVALID_REGISTER_OPT | Some s \<Rightarrow>
     if s = ''read'' then READ_REGISTER
     else if s = ''write'' then WRITE_REGISTER
     else if s = ''s'' then REGISTER_ARG_ABBR
     else if s = ''d'' then REGISTER_ARG_DWARF
     else if s = ''a'' then REGISTER_ARG_ALL
     else INVALID_REGISTER_OPT)"

definition match_where_option :: "string option \<Rightarrow> WHERE_OPTIONS option" where
  "match_where_option buffer = (case buffer of None \<Rightarrow> None | Some s \<Rightarrow> Some
     (if s = ''func'' then WHERE_ARG_FUNC
      else if s = ''line'' then WHERE_ARG_LINE
      else if s = ''addr'' then WHERE_ARG_ADDR
      else INVALID_WHERE_OPT))"

definition match_var_option :: "string option \<Rightarrow> VAR_OPTIONS option" where
  "match_var_option buffer = (case buffer of None \<Rightarrow> None | Some s \<Rightarrow> Some
     (if s = ''get&'' then GET_VAR_ADDR_OPTION
      else if s = ''get'' then GET_VAR_VALUE_OPTION
      else if s = ''set'' then SET_VAR_ADDR_OPTION
      else if s = ''params'' then PARAM_VAR_OPTION
      else if s = ''local'' then LOCAL_VAR_OPTION
      else INVALID_VAR_OPTION))"

definition merge_and_check_path :: "string \<Rightarrow> string \<Rightarrow> string \<Rightarrow> bool" where
  "merge_and_check_path path dir_path file_name =
     (let x = length dir_path; y = length file_name; z = length path in
      if x + y + 1 \<noteq> z then False
      else if path ! x \<noteq> CHR ''/'' then False
      else if \<not> strncmp_eq x path dir_path then False
      else if \<not> strncmp_eq y (drop (x + 1) path) file_name then False
      else True)"


subsection \<open>Well-formed buffers\<close>

text \<open>
  The command buffer owns an array one byte longer than its size, closed by a zero byte; the line
  is a zero-terminated string of unknown length (size 0). Both cursors stay inside.
\<close>

definition cmd_buf :: "Buffer \<Rightarrow> bool" where
  "cmd_buf b = (buf_size b > 0 \<and> rseek b \<le> buf_size b \<and> wseek b \<le> buf_size b \<and>
     (case data b of None \<Rightarrow> False
      | Some a \<Rightarrow> length a = Suc (buf_size b) \<and> a ! buf_size b = NUL))"

definition line_buf :: "Buffer \<Rightarrow> bool" where
  "line_buf l = (buf_size l = 0 \<and>
     (case data l of None \<Rightarrow> False
      | Some a \<Rightarrow> a \<noteq> [] \<and> last a = NUL \<and> NUL \<notin> set (butlast a) \<and> rseek l < length a))"

text \<open>What has been written to a buffer, and what is left to read of a line.\<close>

definition written :: "Buffer \<Rightarrow> string" where
  "written b = take (wseek b) (the (data b))"

definition remaining :: "Buffer \<Rightarrow> string" where
  "remaining l = drop (rseek l) (butlast (the (data l)))"

lemma cmd_bufE:
  assumes "cmd_buf b"
  obtains a where "data b = Some a" "length a = Suc (buf_size b)" "a ! buf_size b = NUL"
    "buf_size b > 0" "rseek b \<le> buf_size b" "wseek b \<le> buf_size b"
  using assms by (auto simp: cmd_buf_def split: option.splits)

lemma line_bufE:
  assumes "line_buf l"
  obtains s where "data l = Some (s @ [NUL])" "NUL \<notin> set s" "rseek l \<le> length s" "buf_size l = 0"
proof -
  from assms obtain a where a: "data l = Some a" "a \<noteq> []" "last a = NUL" "NUL \<notin> set (butlast a)"
      "rseek l < length a" "buf_size l = 0"
    by (auto simp: line_buf_def split: option.splits)
  then have "a = butlast a @ [NUL]" by (metis append_butlast_last_id)
  with a that [of "butlast a"] show thesis by (metis length_append_singleton less_Suc_eq_le)
qed

lemma new_buffer_ok [buf_ops]:
  assumes "n > 0" shows "cmd_buf (new_buffer n junk)"
proof -
  have "length (take n (junk @ replicate n NUL)) = n" by simp
  then obtain t where "take n (junk @ replicate n NUL) = t" "length t = n" by blast
  with assms show ?thesis by (simp add: new_buffer_def cmd_buf_def nth_append del: take_append)
qed

lemma new_buffer_written [buf_ops]: "written (new_buffer n junk) = []"
  by (simp add: new_buffer_def written_def)

lemma reset_seek_ok [buf_ops]: "cmd_buf b \<Longrightarrow> cmd_buf (reset_seek b)"
  by (auto simp: cmd_buf_def reset_seek_def split: option.splits)

lemma reset_seek_written [buf_ops]: "written (reset_seek b) = []"
  by (simp add: written_def reset_seek_def)

lemma reset_seek_rseek [buf_ops]: "rseek (reset_seek b) = 0" "buf_size (reset_seek b) = buf_size b"
  by (simp_all add: reset_seek_def)

lemma write_ok [buf_ops]:
  assumes "cmd_buf b" "wseek b < buf_size b"
  shows "\<exists>b'. write_to_buffer b c = Some (0, b') \<and> cmd_buf b' \<and> written b' = written b @ [c]
     \<and> rseek b' = rseek b \<and> buf_size b' = buf_size b \<and> wseek b' = Suc (wseek b)"
  using assms(1)
proof (rule cmd_bufE)
  fix a assume a: "data b = Some a" "length a = Suc (buf_size b)" "a ! buf_size b = NUL"
    "buf_size b > 0" "rseek b \<le> buf_size b" "wseek b \<le> buf_size b"
  let ?b = "b\<lparr>data := Some (a[wseek b := c]), wseek := wseek b + 1\<rparr>"
  have "write_to_buffer b c = Some (0, ?b)"
    using a assms(2) by (simp add: write_to_buffer_def wr_Some)
  moreover have "cmd_buf ?b" using a assms(2) by (simp add: cmd_buf_def)
  moreover have "written ?b = written b @ [c]"
    using a assms(2) by (simp add: written_def take_Suc_conv_app_nth)
  ultimately show ?thesis by auto
qed

lemma write_full [buf_ops]: "wseek b \<ge> buf_size b \<Longrightarrow> write_to_buffer b c = Some (1, b)"
  by (simp add: write_to_buffer_def)

lemma back_ok [buf_ops]:
  "cmd_buf b \<Longrightarrow> peek_buffer_back b = Some (if written b = [] then NUL else last (written b))"
  by (erule cmd_bufE) (auto simp: peek_buffer_back_def rd_Some written_def last_conv_nth min_absorb2)

lemma line_read_end [buf_ops]:
  "line_buf l \<Longrightarrow> remaining l = [] \<Longrightarrow> read_from_buffer l = Some (NUL, l)"
  by (erule line_bufE) (auto simp: read_from_buffer_def rd_Some remaining_def nth_append)

lemma line_read [buf_ops]:
  assumes "line_buf l" "remaining l = c # r"
  shows "read_from_buffer l = Some (c, l\<lparr>rseek := Suc (rseek l)\<rparr>)" "c \<noteq> NUL"
    "line_buf (l\<lparr>rseek := Suc (rseek l)\<rparr>)" "remaining (l\<lparr>rseek := Suc (rseek l)\<rparr>) = r"
proof -
  from assms(1) obtain s where s: "data l = Some (s @ [NUL])" "NUL \<notin> set s" "rseek l \<le> length s"
      "buf_size l = 0"
    by (rule line_bufE)
  with assms(2) have d: "drop (rseek l) s = c # r" by (simp add: remaining_def)
  then have lt: "rseek l < length s" by (metis drop_eq_Nil leI list.distinct(1))
  with d have c: "s ! rseek l = c" and r: "drop (Suc (rseek l)) s = r"
    by (metis hd_drop_conv_nth list.sel(1)) (metis d drop_Suc list.sel(3) tl_drop)
  from c lt s(2) show cn: "c \<noteq> NUL" by (metis nth_mem)
  show "read_from_buffer l = Some (c, l\<lparr>rseek := Suc (rseek l)\<rparr>)"
    using s c lt cn by (simp add: read_from_buffer_def rd_Some nth_append)
  show "line_buf (l\<lparr>rseek := Suc (rseek l)\<rparr>)" using s lt by (simp add: line_buf_def)
  show "remaining (l\<lparr>rseek := Suc (rseek l)\<rparr>) = r" using s r by (simp add: remaining_def)
qed


subsection \<open>What a line contributes\<close>

text \<open>
  One character that is neither a semicolon nor the end of the line either extends the contents,
  closes the token at their end, or changes nothing.
\<close>

definition put :: "string \<Rightarrow> char \<Rightarrow> string" where
  "put w c = (if is_whitespace c then (if w = [] \<or> last w = NUL then w else w @ [NUL])
     else w @ [c])"

lemma length_put: "length (put w c) \<le> Suc (length w)"
  by (simp add: put_def)

lemma length_puts: "length (foldl put w s) \<le> length w + length s"
proof (induction s arbitrary: w)
  case (Cons c s)
  have "length (foldl put (put w c) s) \<le> length (put w c) + length s" by (rule Cons.IH)
  with length_put [of w c] show ?case by simp
qed simp

lemma put_step:
  assumes "cmd_buf b" "wseek b < buf_size b" "line_buf l" "remaining l = c # r" "c \<noteq> CHR '';''"
  shows "\<exists>b'. parse_loop b l = parse_loop b' (l\<lparr>rseek := Suc (rseek l)\<rparr>) \<and> cmd_buf b'
     \<and> written b' = put (written b) c \<and> rseek b' = rseek b \<and> buf_size b' = buf_size b
     \<and> wseek b' \<le> Suc (wseek b)"
proof -
  note rd = line_read [OF assms(3,4)]
  show ?thesis
  proof (cases "is_whitespace c \<and> (written b = [] \<or> last (written b) = NUL)")
    case True
    with rd assms(5) have "parse_loop b l = parse_loop b (l\<lparr>rseek := Suc (rseek l)\<rparr>)"
      by (subst parse_loop.simps) (auto simp: back_ok [OF assms(1)])
    with True assms(1) show ?thesis by (auto simp: put_def)
  next
    case False
    define d where "d = (if is_whitespace c then NUL else c)"
    with False have add: "put (written b) c = written b @ [d]" by (auto simp: put_def)
    from write_ok [OF assms(1,2), of d] obtain b' where
      b': "write_to_buffer b d = Some (0, b')" "cmd_buf b'" "written b' = written b @ [d]"
        "rseek b' = rseek b" "buf_size b' = buf_size b" "wseek b' = Suc (wseek b)"
      by blast
    with rd assms(5) False have "parse_loop b l = parse_loop b' (l\<lparr>rseek := Suc (rseek l)\<rparr>)"
      by (subst parse_loop.simps) (auto simp: back_ok [OF assms(1)] d_def)
    with b' add show ?thesis by auto
  qed
qed

lemma put_steps:
  assumes "cmd_buf b" "line_buf l" "remaining l = s @ r" "CHR '';'' \<notin> set s"
    "wseek b + length s \<le> buf_size b"
  shows "\<exists>b' l'. parse_loop b l = parse_loop b' l' \<and> cmd_buf b' \<and> line_buf l'
     \<and> written b' = foldl put (written b) s \<and> remaining l' = r \<and> rseek b' = rseek b
     \<and> buf_size b' = buf_size b \<and> wseek b' \<le> wseek b + length s"
  using assms
proof (induction s arbitrary: b l)
  case Nil
  then show ?case by auto
next
  case (Cons c s)
  from Cons.prems have rem: "remaining l = c # (s @ r)" by simp
  let ?l = "l\<lparr>rseek := Suc (rseek l)\<rparr>"
  from Cons.prems put_step [OF Cons.prems(1) _ Cons.prems(2) rem] obtain b' where
    b': "parse_loop b l = parse_loop b' ?l" "cmd_buf b'" "written b' = put (written b) c"
      "rseek b' = rseek b" "buf_size b' = buf_size b" "wseek b' \<le> Suc (wseek b)"
    by auto
  have "line_buf ?l" "remaining ?l = s @ r" using line_read [OF Cons.prems(2) rem] by auto
  from Cons.IH [OF b'(2) this] Cons.prems b' show ?case by fastforce
qed

text \<open>The two ways a line ends, once its text has been copied.\<close>

lemma parse_semicolon:
  assumes "cmd_buf b" "line_buf l" "remaining l = CHR '';'' # r" "wseek b < buf_size b"
  shows "\<exists>b' l'. parse_loop b l = Some (1, b', l') \<and> cmd_buf b' \<and> line_buf l'
     \<and> written b' = written b @ [NUL] \<and> remaining l' = r \<and> rseek b' = rseek b
     \<and> buf_size b' = buf_size b"
proof -
  from write_ok [OF assms(1,4)] obtain b' where
    "write_to_buffer b NUL = Some (0, b')" "cmd_buf b'" "written b' = written b @ [NUL]"
      "rseek b' = rseek b" "buf_size b' = buf_size b"
    by blast
  with line_read [OF assms(2,3)] show ?thesis
    by (subst parse_loop.simps) auto
qed

lemma parse_line_end:
  assumes "cmd_buf b" "line_buf l" "remaining l = []" "wseek b < buf_size b"
  shows "\<exists>b'. parse_loop b l = Some (0, b', l) \<and> cmd_buf b'
     \<and> written b' = put (written b) CHR '' '' \<and> rseek b' = rseek b \<and> buf_size b' = buf_size b"
proof -
  from write_ok [OF assms(1,4)] obtain b' where
    "write_to_buffer b NUL = Some (0, b')" "cmd_buf b'" "written b' = written b @ [NUL]"
      "rseek b' = rseek b" "buf_size b' = buf_size b"
    by blast
  with line_read_end [OF assms(2,3)] assms(1) show ?thesis
    by (subst parse_loop.simps) (auto simp: back_ok [OF assms(1)] put_def is_whitespace_def)
qed


text \<open>A parse of any line ends, in one of three ways, with both buffers well formed.\<close>

lemma write_any: "cmd_buf b \<Longrightarrow> \<exists>w b'. write_to_buffer b c = Some (w, b') \<and> cmd_buf b'
    \<and> (w \<noteq> 0 \<longrightarrow> wseek b' = buf_size b') \<and> buf_size b' = buf_size b \<and> rseek b' = rseek b"
  using write_ok [of b c] write_full [of b c]
  by (cases "wseek b < buf_size b") (fastforce simp: cmd_buf_def)+

lemma parse_loop_total:
  assumes "cmd_buf b" "line_buf l"
  shows "\<exists>r b' l'. parse_loop b l = Some (r, b', l') \<and> cmd_buf b' \<and> line_buf l'
     \<and> buf_size b' = buf_size b \<and> rseek b' = rseek b
     \<and> (r = 0 \<and> remaining l' = []
        \<or> r = 1 \<and> length (remaining l') < length (remaining l)
        \<or> r = -1 \<and> length (remaining l') < length (remaining l) \<and> wseek b' = buf_size b')"
  using assms
proof (induction "remaining l" arbitrary: b l)
  case Nil
  note rd = line_read_end [OF Nil.prems(2) Nil.hyps [symmetric]]
  from write_any [OF Nil.prems(1), of NUL] obtain w b' where
    "write_to_buffer b NUL = Some (w, b')" "cmd_buf b'" "buf_size b' = buf_size b" "rseek b' = rseek b"
    by blast
  with rd Nil show ?case
    by (subst parse_loop.simps) (auto simp: back_ok [OF Nil.prems(1)])
next
  case (Cons c s)
  note rd = line_read [OF Cons.prems(2) Cons.hyps(2) [symmetric]]
  let ?l = "l\<lparr>rseek := Suc (rseek l)\<rparr>" and ?d = "if is_whitespace c \<or> c = CHR '';'' then NUL else c"
  from write_any [OF Cons.prems(1), of ?d] obtain w b' where
    w: "write_to_buffer b ?d = Some (w, b')" "cmd_buf b'" "w \<noteq> 0 \<longrightarrow> wseek b' = buf_size b'"
      "buf_size b' = buf_size b" "rseek b' = rseek b"
    by blast
  have len: "length (remaining ?l) < length (remaining l)" using rd(4) by (simp add: Cons.hyps(2) [symmetric])
  note IH = Cons.hyps(1) [OF rd(4) [symmetric] _ rd(3)]
  consider (semi) "c = CHR '';''" | (stop) "c \<noteq> CHR '';''" "parse_loop b l = Some (-1, b', ?l)" "w \<noteq> 0"
    | (go) b2 where "c \<noteq> CHR '';''" "parse_loop b l = parse_loop b2 ?l" "cmd_buf b2"
        "buf_size b2 = buf_size b" "rseek b2 = rseek b"
  proof (cases "c = CHR '';''")
    case semi: False
    note unf = parse_loop.simps [of b l] rd(1,2) semi back_ok [OF Cons.prems(1)]
    show ?thesis
    proof (cases "is_whitespace c \<and> (written b = [] \<or> last (written b) = NUL)")
      case True
      then have "parse_loop b l = parse_loop b ?l" by (auto simp: unf)
      with that(3) [of b] semi Cons.prems(1) show ?thesis by simp
    next
      case False
      then have "parse_loop b l = (if w \<noteq> 0 then Some (-1, b', ?l) else parse_loop b' ?l)"
        using w(1) semi by (auto simp: unf split: if_splits)
      with that(2) that(3) [of b'] semi w show ?thesis by (cases "w = 0") simp_all
    qed
  qed (use that(1) in simp)
  then show ?case
  proof cases
    case semi
    with rd w len show ?thesis
      by (subst parse_loop.simps) (auto simp: is_whitespace_def)
  next
    case stop
    with rd w len show ?thesis by auto
  next
    case go
    from IH [OF go(3)] go(2,4,5) len show ?thesis by fastforce
  qed
qed


subsection \<open>The words of a text\<close>

text \<open>
  The reference: maximal runs of non-space characters. \<open>scan_words cur s\<close> gives the words that
  are complete when \<open>s\<close> has been read after the partial word \<open>cur\<close>, and the partial word then.
\<close>

fun scan_words :: "string \<Rightarrow> string \<Rightarrow> string list \<times> string" where
  "scan_words cur [] = ([], cur)"
| "scan_words cur (c # s) =
     (if is_whitespace c then
        (if cur = [] then scan_words [] s
         else let (ts, u) = scan_words [] s in (cur # ts, u))
      else scan_words (cur @ [c]) s)"

definition text_words :: "string \<Rightarrow> string list" where
  "text_words s = (case scan_words [] s of (ts, u) \<Rightarrow> if u = [] then ts else ts @ [u])"

definition enc :: "string list \<Rightarrow> string" where
  "enc ts = concat (map (\<lambda>t. t @ [NUL]) ts)"

lemma enc_simps [simp]: "enc [] = []" "enc (t # ts) = t @ NUL # enc ts" "enc (ts @ us) = enc ts @ enc us"
  by (simp_all add: enc_def)

lemma enc_last: "enc ts = [] \<or> last (enc ts) = NUL"
  by (cases ts rule: rev_cases) simp_all

lemma puts_scan:
  assumes "NUL \<notin> set s" "NUL \<notin> set cur"
  shows "foldl put (enc ts @ cur) s = enc (ts @ fst (scan_words cur s)) @ snd (scan_words cur s)"
  using assms
proof (induction cur s arbitrary: ts rule: scan_words.induct)
  case (1 cur)
  then show ?case by simp
next
  case (2 cur c s)
  from "2.prems" have n: "NUL \<notin> set s" "NUL \<notin> set cur" "NUL \<notin> set []" "NUL \<notin> set (cur @ [c])" by auto
  show ?case
  proof (cases "is_whitespace c")
    case False
    with "2.IH"(3) [OF False n(1,4), of ts] show ?thesis by (simp add: put_def)
  next
    case True
    show ?thesis
    proof (cases "cur = []")
      case e: True
      from "2.IH"(1) [OF True e n(1,3), of ts] True e enc_last [of ts]
      show ?thesis by (simp add: put_def)
    next
      case e: False
      with n have "last cur \<noteq> NUL" by (metis last_in_set)
      with "2.IH"(2) [OF True e n(1,3), of "ts @ [cur]"] True e
      show ?thesis by (simp add: put_def case_prod_beta)
    qed
  qed
qed

lemma scan_words_clean:
  assumes "NUL \<notin> set s" "NUL \<notin> set cur"
  shows "NUL \<notin> set (snd (scan_words cur s)) \<and> (\<forall>t\<in>set (fst (scan_words cur s)). t \<noteq> [] \<and> NUL \<notin> set t)"
  using assms
proof (induction cur s rule: scan_words.induct)
  case (1 cur)
  then show ?case by simp
next
  case (2 cur c s)
  from "2.prems" have n: "NUL \<notin> set s" "NUL \<notin> set cur" "NUL \<notin> set []" "NUL \<notin> set (cur @ [c])" by auto
  show ?case
  proof (cases "is_whitespace c")
    case False
    with "2.IH"(3) [OF False n(1,4)] show ?thesis by simp
  next
    case True
    show ?thesis
    proof (cases "cur = []")
      case e: True
      from "2.IH"(1) [OF True e n(1,3)] True e show ?thesis by simp
    next
      case e: False
      from "2.IH"(2) [OF True e n(1,3)] True e n(2) show ?thesis by (simp add: case_prod_beta)
    qed
  qed
qed

lemma text_words_clean:
  "NUL \<notin> set s \<Longrightarrow> t \<in> set (text_words s) \<Longrightarrow> t \<noteq> [] \<and> NUL \<notin> set t"
  using scan_words_clean [of s "[]"]
  by (cases "scan_words [] s") (auto simp: text_words_def split: if_splits)

text \<open>After the semicolon the buffer holds the encoded words, and possibly one more zero byte.\<close>

lemma puts_text_words:
  assumes "NUL \<notin> set s"
  shows "foldl put [] s @ [NUL] = enc (text_words s) @ (if snd (scan_words [] s) = [] then [NUL] else [])"
  using puts_scan [OF assms, of "[]" "[]"] by (auto simp: text_words_def split: prod.splits)

subsection \<open>Tokens\<close>

lemma skip_token_ok:
  assumes "cmd_buf b" "data b = Some a"
  shows "skip_token b = Some (b\<lparr>rseek :=
     min (buf_size b) (Suc (rseek b + length (takeWhile (\<lambda>c. c \<noteq> NUL) (drop (rseek b) a))))\<rparr>)"
  using assms
proof (induction "buf_size b - rseek b" arbitrary: b)
  case 0
  then show ?case
    by (subst skip_token.simps)
       (auto simp: cmd_buf_def read_from_buffer_def intro: Buffer.equality)
next
  case (Suc d)
  then have lt: "rseek b < buf_size b" and len: "length a = Suc (buf_size b)"
    by (auto simp: cmd_buf_def)
  let ?b = "b\<lparr>rseek := Suc (rseek b)\<rparr>"
  have dr: "drop (rseek b) a = a ! rseek b # drop (Suc (rseek b)) a"
    using lt len by (simp add: Cons_nth_drop_Suc)
  have rd: "read_from_buffer b = Some (a ! rseek b, ?b)"
    using lt len Suc.prems by (simp add: read_from_buffer_def rd_Some)
  show ?case
  proof (cases "a ! rseek b = NUL")
    case True
    with rd lt dr show ?thesis by (subst skip_token.simps) simp
  next
    case False
    have "cmd_buf ?b" using Suc.prems lt by (simp add: cmd_buf_def)
    with Suc.hyps(1) [of ?b] Suc.hyps(2) Suc.prems(2)
    have "skip_token ?b = Some (?b\<lparr>rseek := min (buf_size b)
        (Suc (Suc (rseek b) + length (takeWhile (\<lambda>c. c \<noteq> NUL) (drop (Suc (rseek b)) a))))\<rparr>)"
      by simp
    with rd False dr show ?thesis by (subst skip_token.simps) simp
  qed
qed

lemma next_token_total:
  assumes "cmd_buf b"
  shows "\<exists>t b' s. next_token b = Some (t, b') \<and> cmd_buf b' \<and> tok_str b' t = Some s \<and> data b' = data b
     \<and> rseek b \<le> rseek b' \<and> (s = None \<longleftrightarrow> t = None)"
  using assms
proof (rule cmd_bufE)
  fix a assume a: "data b = Some a" "length a = Suc (buf_size b)" "a ! buf_size b = NUL"
    "buf_size b > 0" "rseek b \<le> buf_size b" "wseek b \<le> buf_size b"
  have "NUL \<in> set (drop (rseek b) a)"
    using a by (auto simp: in_set_conv_nth intro!: exI [of _ "buf_size b - rseek b"])
  then have "\<exists>s. cstr a (rseek b) = Some s" using a by (simp add: cstr_def)
  then show ?thesis
    using a assms skip_token_ok [OF assms a(1)]
    by (auto simp: next_token_def rd_Some tok_str_def cmd_buf_def)
qed


subsection \<open>The token stream of a command\<close>

text \<open>
  A buffer holds the tokens \<open>ts\<close> when, from the read cursor on, its written part is their
  encoding, possibly followed by one further zero byte.
\<close>

definition holds_tokens :: "Buffer \<Rightarrow> string list \<Rightarrow> bool" where
  "holds_tokens b ts = (cmd_buf b \<and> rseek b \<le> wseek b \<and>
     (drop (rseek b) (written b) = enc ts \<or> drop (rseek b) (written b) = enc ts @ [NUL]) \<and>
     (\<forall>t\<in>set ts. t \<noteq> [] \<and> NUL \<notin> set t))"

lemma holds_tokens_next:
  assumes "holds_tokens b (t # ts)"
  shows "\<exists>i b'. next_token b = Some (Some i, b') \<and> tok_str b' (Some i) = Some (Some t)
     \<and> holds_tokens b' ts \<and> data b' = data b \<and> rseek b' = i + Suc (length t)"
proof -
  from assms have cb: "cmd_buf b" and t: "t \<noteq> []" "NUL \<notin> set t" and rw: "rseek b \<le> wseek b"
    and rest: "\<forall>t\<in>set ts. t \<noteq> [] \<and> NUL \<notin> set t"
    by (auto simp: holds_tokens_def)
  from cb obtain a where a: "data b = Some a" "length a = Suc (buf_size b)" "wseek b \<le> buf_size b"
    by (rule cmd_bufE)
  from assms obtain z where z: "z = [] \<or> z = [NUL]"
      "drop (rseek b) (take (wseek b) a) = t @ NUL # enc ts @ z"
    by (auto simp: holds_tokens_def written_def a)
  have "drop (rseek b) a = drop (rseek b) (take (wseek b) a @ drop (wseek b) a)" by simp
  also have "\<dots> = t @ NUL # enc ts @ z @ drop (wseek b) a"
    using z rw a by (simp del: append_take_drop_id)
  finally have d: "drop (rseek b) a = t @ NUL # enc ts @ z @ drop (wseek b) a" .
  have len: "Suc (rseek b + length t) \<le> wseek b"
    using arg_cong [OF z(2), of length] a by simp
  have tw: "takeWhile (\<lambda>c. c \<noteq> NUL) (drop (rseek b) a) = t"
    unfolding d using t(2) by (subst takeWhile_append2) auto
  have lt: "rseek b < length a" using len a by simp
  have hd: "a ! rseek b = hd t"
    using d t(1) lt by (metis hd_append2 hd_drop_conv_nth)
  with t have hn: "a ! rseek b \<noteq> NUL" by (metis hd_in_set)
  let ?b = "b\<lparr>rseek := Suc (rseek b + length t)\<rparr>"
  have "next_token b = Some (Some (rseek b), ?b)"
    using skip_token_ok [OF cb a(1)] tw len a lt hn
    by (simp add: next_token_def rd_Some min_absorb2)
  moreover have "tok_str ?b (Some (rseek b)) = Some (Some t)"
    using a lt tw d by (simp add: tok_str_def cstr_def)
  moreover have "drop (Suc (rseek b + length t)) (take (wseek b) a) =
      drop (Suc (length t)) (drop (rseek b) (take (wseek b) a))"
    unfolding drop_drop by (simp add: add.commute)
  then have "drop (Suc (rseek b + length t)) (take (wseek b) a) = enc ts @ z"
    unfolding z(2) by simp
  with z(1) cb len a rest have "holds_tokens ?b ts"
    by (simp add: holds_tokens_def written_def cmd_buf_def)
  ultimately show ?thesis by auto
qed

lemma holds_tokens_end:
  assumes "holds_tokens b []"
  shows "next_token b = Some (None, b)"
proof -
  from assms have cb: "cmd_buf b" and rw: "rseek b \<le> wseek b" by (auto simp: holds_tokens_def)
  from cb obtain a where a: "data b = Some a" "length a = Suc (buf_size b)" "wseek b \<le> buf_size b"
      "buf_size b > 0"
    by (rule cmd_bufE)
  from assms have "drop (rseek b) (take (wseek b) a) = [] \<or> drop (rseek b) (take (wseek b) a) = [NUL]"
    by (simp add: holds_tokens_def written_def a)
  then have "rseek b < wseek b \<Longrightarrow> a ! rseek b = NUL"
    using a by (auto simp: min_absorb2 hd_drop_conv_nth dest!: arg_cong [where f = hd])
  with a rw show ?thesis by (auto simp: next_token_def rd_Some)
qed

text \<open>What a handler sees that asks for \<open>k\<close> tokens in a row.\<close>

fun read_tokens :: "('b \<Rightarrow> (nat option \<times> 'b) option) \<Rightarrow> ('b \<Rightarrow> nat option \<Rightarrow> string option option)
    \<Rightarrow> nat \<Rightarrow> 'b \<Rightarrow> string option list option" where
  "read_tokens nxt str 0 b = Some []"
| "read_tokens nxt str (Suc k) b = do {
     (t, b') \<leftarrow> nxt b;
     s \<leftarrow> str b' t;
     ss \<leftarrow> read_tokens nxt str k b';
     Some (s # ss)
   }"

locale token_source =
  fixes nxt :: "'b \<Rightarrow> (nat option \<times> 'b) option"
    and str :: "'b \<Rightarrow> nat option \<Rightarrow> string option option"
    and holds :: "'b \<Rightarrow> string list \<Rightarrow> bool"
  assumes nxt_token: "holds b (t # ts) \<Longrightarrow>
      \<exists>i b'. nxt b = Some (Some i, b') \<and> str b' (Some i) = Some (Some t) \<and> holds b' ts"
    and nxt_end: "holds b [] \<Longrightarrow> nxt b = Some (None, b)"
    and str_null: "str b None = Some None"
begin

lemma read_tokens_end: "holds b [] \<Longrightarrow> read_tokens nxt str k b = Some (replicate k None)"
  by (induction k) (simp_all add: nxt_end str_null)

lemma read_tokens_all:
  "holds b ts \<Longrightarrow> read_tokens nxt str k b = Some (take k (map Some ts @ replicate k None))"
proof (induction k arbitrary: b ts)
  case 0
  then show ?case by simp
next
  case (Suc k)
  show ?case
  proof (cases ts)
    case Nil
    with Suc.prems show ?thesis by (simp only: read_tokens_end) simp
  next
    case (Cons t us)
    with nxt_token Suc.prems obtain i b' where
      "nxt b = Some (Some i, b')" "str b' (Some i) = Some (Some t)" "holds b' us"
      by blast
    with Suc.IH Cons show ?thesis by (simp add: replicate_append_same [symmetric])
  qed
qed

end

interpretation tokens: token_source next_token tok_str holds_tokens
  by unfold_locales (use holds_tokens_next holds_tokens_end in \<open>auto simp: tok_str_def, blast\<close>)


subsection \<open>Properties\<close>

lemma line_of_text:
  assumes "NUL \<notin> set s" "buf_size l = 0" "rseek l = 0"
  shows "line_buf (snd (poll_input (Some s) l)) \<and> remaining (snd (poll_input (Some s) l)) = s"
  using assms by (simp add: poll_input_def line_buf_def remaining_def butlast_append)

lemma parse_input_line: "line_buf l \<Longrightarrow> parse_input b l = parse_loop b l"
  by (auto simp: parse_input_def line_buf_def)

text \<open>
  Claim C14. Parsing a line into the command buffer never leaves an array, keeps both buffers well
  formed and returns one of three codes: 0 with the whole line consumed; 1 (a command is ready) or
  -1 (the buffer is full) with at least one character of the line consumed. The loop of the
  debugger around it therefore ends for every line.
\<close>

theorem parse_input_safe:
  assumes "cmd_buf b" "line_buf l"
  shows "\<exists>r b' l'. parse_input b l = Some (r, b', l') \<and> cmd_buf b' \<and> line_buf l'
     \<and> (r = 0 \<and> remaining l' = []
        \<or> r = 1 \<and> length (remaining l') < length (remaining l)
        \<or> r = -1 \<and> length (remaining l') < length (remaining l) \<and> wseek b' = buf_size b')"
  using parse_loop_total [OF assms] parse_input_line [OF assms(2)] by auto

theorem parse_input_safe_witness:
  "\<exists>r b' l'. parse_input (new_buffer 2 []) (snd (poll_input (Some ''abc;'') (new_buffer 0 []))) = Some (r, b', l')
     \<and> cmd_buf b'"
proof -
  have "cmd_buf (new_buffer 2 [])" by (simp add: buf_ops)
  moreover have "line_buf (snd (poll_input (Some ''abc;'') (new_buffer 0 [])))"
    using line_of_text [of "''abc;''" "new_buffer 0 []"] by (simp add: new_buffer_def)
  ultimately show ?thesis using parse_input_safe by blast
qed

text \<open>The lines the user enters for one command, one \<open>poll_input\<close> and one parse each.\<close>

fun feed_lines :: "Buffer \<Rightarrow> Buffer \<Rightarrow> string list \<Rightarrow> (int \<times> Buffer \<times> Buffer) option" where
  "feed_lines b line [] = Some (0, b, line)"
| "feed_lines b line (x # xs) = do {
     (r, b', l') \<leftarrow> parse_input b (snd (poll_input (Some x) line));
     if r = 0 then feed_lines b' (reset_seek l') xs else Some (r, b', l')
   }"

lemma feed_lines_written:
  assumes "cmd_buf b" "buf_size line = 0" "rseek line = 0" "rseek b = 0"
    and "\<forall>x\<in>set (s # ls). CHR '';'' \<notin> set x \<and> NUL \<notin> set x" "NUL \<notin> set r"
    and "wseek b + length (concat (map (\<lambda>x. x @ '' '') ls) @ s) < buf_size b"
  shows "\<exists>b' l'. feed_lines b line (ls @ [s @ CHR '';'' # r]) = Some (1, b', l') \<and> cmd_buf b'
     \<and> rseek b' = 0 \<and> remaining l' = r \<and> line_buf l'
     \<and> written b' = foldl put (written b) (concat (map (\<lambda>x. x @ '' '') ls) @ s) @ [NUL]"
  using assms
proof (induction ls arbitrary: b line)
  case Nil
  let ?l = "snd (poll_input (Some (s @ CHR '';'' # r)) line)"
  from Nil have l: "line_buf ?l" "remaining ?l = s @ CHR '';'' # r"
    using line_of_text [of "s @ CHR '';'' # r" line] by auto
  from put_steps [OF Nil.prems(1) l] Nil.prems obtain b1 l1 where
    1: "parse_loop b ?l = parse_loop b1 l1" "cmd_buf b1" "line_buf l1"
      "written b1 = foldl put (written b) s" "remaining l1 = CHR '';'' # r" "rseek b1 = rseek b"
      "wseek b1 < buf_size b1"
    by fastforce
  from parse_semicolon [OF 1(2,3,5,7)] 1 Nil.prems(4) parse_input_line [OF l(1)] show ?case
    by fastforce
next
  case (Cons x ls)
  let ?l = "snd (poll_input (Some x) line)"
  from Cons.prems have l: "line_buf ?l" "remaining ?l = x @ []"
    using line_of_text [of x line] by auto
  from put_steps [OF Cons.prems(1) l] Cons.prems obtain b1 l1 where
    1: "parse_loop b ?l = parse_loop b1 l1" "cmd_buf b1" "line_buf l1"
      "written b1 = foldl put (written b) x" "remaining l1 = []" "rseek b1 = rseek b"
      "buf_size b1 = buf_size b" "wseek b1 \<le> wseek b + length x"
    by fastforce
  with Cons.prems have "wseek b1 < buf_size b1" by simp
  from parse_line_end [OF 1(2,3,5) this] obtain b2 where
    2: "parse_loop b1 l1 = Some (0, b2, l1)" "cmd_buf b2" "written b2 = put (written b1) CHR '' ''"
      "rseek b2 = rseek b1" "buf_size b2 = buf_size b1"
    by blast
  have "wseek b2 = length (written b2)" "wseek b1 = length (written b1)"
    using 2(2) 1(2) by (auto simp: written_def elim!: cmd_bufE)
  with 2(3) length_put [of "written b1" "CHR '' ''"] have w: "wseek b2 \<le> Suc (wseek b1)" by simp
  have r: "buf_size (reset_seek l1) = 0" "rseek (reset_seek l1) = 0"
    using 1(3) by (auto simp: reset_seek_def line_buf_def)
  from Cons.IH [OF 2(2) r] 1 2 w Cons.prems parse_input_line [OF l(1)] show ?case by auto
qed

lemma written_holds:
  assumes "cmd_buf b" "rseek b = 0" "NUL \<notin> set s" "written b = foldl put [] s @ [NUL]"
  shows "holds_tokens b (text_words s)"
  using assms text_words_clean [OF assms(3)]
  by (simp add: holds_tokens_def puts_text_words [OF assms(3)])

text \<open>
  Claim C15. The tokens of a command are the words of its text: when the user enters the lines
  \<open>ls\<close> and then \<open>s\<close> followed by a semicolon, and the text fits the buffer, the parse reports a
  ready command, leaves the text behind the semicolon unread, and any number \<open>k\<close> of calls of
  \<open>next_token\<close> yields the maximal runs of non-space characters in order (line ends count as
  space), and \<open>NULL\<close> from then on.
\<close>

theorem command_tokens:
  assumes "cmd_buf b" "written b = []" "rseek b = 0" "buf_size line = 0" "rseek line = 0"
    and "\<forall>x\<in>set (s # ls). CHR '';'' \<notin> set x \<and> NUL \<notin> set x" "NUL \<notin> set r"
    and "length (concat (map (\<lambda>x. x @ '' '') ls) @ s) < buf_size b"
  shows "\<exists>b' l'. feed_lines b line (ls @ [s @ CHR '';'' # r]) = Some (1, b', l') \<and> remaining l' = r
     \<and> read_tokens next_token tok_str k b' = Some (take k
          (map Some (text_words (concat (map (\<lambda>x. x @ '' '') ls) @ s)) @ replicate k None))"
proof -
  let ?t = "concat (map (\<lambda>x. x @ '' '') ls) @ s"
  have "wseek b = 0" using assms(1,2) by (auto simp: written_def elim!: cmd_bufE)
  with feed_lines_written [OF assms(1,4,5,3,6,7)] assms(2,8) obtain b' l' where
    b': "feed_lines b line (ls @ [s @ CHR '';'' # r]) = Some (1, b', l')" "cmd_buf b'" "rseek b' = 0"
      "remaining l' = r" "written b' = foldl put [] ?t @ [NUL]"
    by auto
  have "NUL \<notin> set ?t" using assms(6) by auto
  from tokens.read_tokens_all [OF written_holds [OF b'(2,3) this b'(5)]] b'(1,4)
  show ?thesis by blast
qed

theorem command_tokens_witness:
  "\<exists>b' l'. feed_lines (new_buffer CMD_MAX_SIZE []) (new_buffer 0 []) [''reg  read'', '' s rip ; next;''] = Some (1, b', l')
     \<and> remaining l' = '' next;''
     \<and> read_tokens next_token tok_str 5 b' =
         Some [Some ''reg'', Some ''read'', Some ''s'', Some ''rip'', None]"
proof -
  have "text_words ''reg  read  s rip '' = [''reg'', ''read'', ''s'', ''rip'']"
    by (simp add: text_words_def is_whitespace_def)
  with command_tokens [of "new_buffer CMD_MAX_SIZE []" "new_buffer 0 []" "'' s rip ''" "[''reg  read'']" "'' next;''" 5]
  show ?thesis
    by (simp add: buf_ops CMD_MAX_SIZE_def) (simp add: new_buffer_def)
qed

text \<open>
  A path is accepted for a directory and a file name exactly when it is the directory,
  a slash and the file name.
\<close>

theorem merge_and_check_path_iff:
  "merge_and_check_path path dir_path file_name \<longleftrightarrow> path = dir_path @ CHR ''/'' # file_name"
proof
  assume "merge_and_check_path path dir_path file_name"
  then have m: "length path = Suc (length dir_path + length file_name)"
      "path ! length dir_path = CHR ''/''" "take (length dir_path) path = dir_path"
      "drop (Suc (length dir_path)) path = file_name"
    by (auto simp: merge_and_check_path_def strncmp_eq_def Let_def split: if_splits)
  then have "path = take (length dir_path) path @ path ! length dir_path # drop (Suc (length dir_path)) path"
    by (intro id_take_nth_drop) simp
  with m show "path = dir_path @ CHR ''/'' # file_name" by simp
qed (simp add: merge_and_check_path_def strncmp_eq_def)

text \<open>
  At the end of the input (a \<open>NULL\<close> line) \<open>parse_input\<close> reports a ready command and
  has put the text \<open>exit\<close> into the array, but it does not advance the write cursor: with the
  cursors at 0, the next token is \<open>NULL\<close>, which is no command at all.
\<close>

theorem eof_exit_not_seen:
  assumes "cmd_buf b" "rseek b = 0" "wseek b = 0" "4 < buf_size b" "data l = None"
  shows "\<exists>b'. parse_input b l = Some (1, b', l) \<and> cstr (the (data b')) 0 = Some ''exit''
     \<and> next_token b' = Some (None, b') \<and> match_command None = INVALID_CMD"
proof -
  from assms(1) obtain a where a: "data b = Some a" "length a = Suc (buf_size b)"
    by (rule cmd_bufE)
  with assms(2-) show ?thesis
    by (simp add: parse_input_def strcpy_at0_def next_token_def rd_Some cstr_def match_command_def)
qed

theorem eof_exit_not_seen_witness:
  "\<exists>b'. parse_input (new_buffer CMD_MAX_SIZE []) (new_buffer 0 []) = Some (1, b', new_buffer 0 [])
     \<and> next_token b' = Some (None, b')"
proof -
  have "cmd_buf (new_buffer CMD_MAX_SIZE [])" by (simp add: buf_ops CMD_MAX_SIZE_def)
  from eof_exit_not_seen [OF this, of "new_buffer 0 []"] show ?thesis
    by (auto simp: new_buffer_def CMD_MAX_SIZE_def)
qed

end
