(* ===== verification/Registers.thy ===== *)
theory Registers
  imports VDB_Prelude
begin

section \<open>The register table (\<^verbatim>\<open>debugger/registers.c\<close>)\<close>

text \<open>
  The saved registers of the debugged process (\<^verbatim>\<open>struct user_regs_struct\<close>), the program's own
  numbering of them (the enum \<^verbatim>\<open>REGISTER\<close>, whose values C treats as unsigned 32-bit numbers and
  which the code computes with), and the two tables that \<open>load_DW_mappings\<close> fills by parsing one
  packed string. The lemmas show that the parser terminates with the complete table, that look-ups
  by name and by DWARF number invert the tables, and that the pointers returned by
  \<open>get_register\<close> address distinct fields.
\<close>

subsection \<open>Data\<close>

record regs_struct =
  r15 :: UWORD
  r14 :: UWORD
  r13 :: UWORD
  r12 :: UWORD
  rbp :: UWORD
  rbx :: UWORD
  r11 :: UWORD
  r10 :: UWORD
  r9 :: UWORD
  r8 :: UWORD
  rax :: UWORD
  rcx :: UWORD
  rdx :: UWORD
  rsi :: UWORD
  rdi :: UWORD
  orig_rax :: UWORD
  rip :: UWORD
  cs :: UWORD
  eflags :: UWORD
  rsp :: UWORD
  ss :: UWORD
  fs_base :: UWORD
  gs_base :: UWORD
  ds :: UWORD
  es :: UWORD
  fs :: UWORD
  gs :: UWORD

type_synonym REGISTER = "32 word"

text \<open>The enum constants, written \<open>REG_<name>\<close> because the fields own the plain names.\<close>

abbreviation (input) REG_r15 :: REGISTER where "REG_r15 \<equiv> 0"
abbreviation (input) REG_r14 :: REGISTER where "REG_r14 \<equiv> 1"
abbreviation (input) REG_r13 :: REGISTER where "REG_r13 \<equiv> 2"
abbreviation (input) REG_r12 :: REGISTER where "REG_r12 \<equiv> 3"
abbreviation (input) REG_rbp :: REGISTER where "REG_rbp \<equiv> 4"
abbreviation (input) REG_rbx :: REGISTER where "REG_rbx \<equiv> 5"
abbreviation (input) REG_r11 :: REGISTER where "REG_r11 \<equiv> 6"
abbreviation (input) REG_r10 :: REGISTER where "REG_r10 \<equiv> 7"
abbreviation (input) REG_r9 :: REGISTER where "REG_r9 \<equiv> 8"
abbreviation (input) REG_r8 :: REGISTER where "REG_r8 \<equiv> 9"
abbreviation (input) REG_rax :: REGISTER where "REG_rax \<equiv> 10"
abbreviation (input) REG_rcx :: REGISTER where "REG_rcx \<equiv> 11"
abbreviation (input) REG_rdx :: REGISTER where "REG_rdx \<equiv> 12"
abbreviation (input) REG_rsi :: REGISTER where "REG_rsi \<equiv> 13"
abbreviation (input) REG_rdi :: REGISTER where "REG_rdi \<equiv> 14"
abbreviation (input) REG_orig_rax :: REGISTER where "REG_orig_rax \<equiv> 15"
abbreviation (input) REG_rip :: REGISTER where "REG_rip \<equiv> 16"
abbreviation (input) REG_cs :: REGISTER where "REG_cs \<equiv> 17"
abbreviation (input) REG_eflags :: REGISTER where "REG_eflags \<equiv> 18"
abbreviation (input) REG_rsp :: REGISTER where "REG_rsp \<equiv> 19"
abbreviation (input) REG_ss :: REGISTER where "REG_ss \<equiv> 20"
abbreviation (input) REG_fs_base :: REGISTER where "REG_fs_base \<equiv> 21"
abbreviation (input) REG_gs_base :: REGISTER where "REG_gs_base \<equiv> 22"
abbreviation (input) REG_ds :: REGISTER where "REG_ds \<equiv> 23"
abbreviation (input) REG_es :: REGISTER where "REG_es \<equiv> 24"
abbreviation (input) REG_fs :: REGISTER where "REG_fs \<equiv> 25"
abbreviation (input) REG_gs :: REGISTER where "REG_gs \<equiv> 26"
abbreviation (input) NUM_REGISTERS :: REGISTER where "NUM_REGISTERS \<equiv> 27"

definition NO_SUCH_REGISTER :: int where "NO_SUCH_REGISTER = 1"

text \<open>The two static arrays: DWARF numbers and abbreviations, indexed by \<^verbatim>\<open>REGISTER\<close>.\<close>

record reg_tables =
  DWARFMappings :: "int list"
  registerAbbr :: "string list"

subsection \<open>Loading the tables\<close>

text \<open>
  The initialiser is the concatenation of one chunk per register, as the C compiler joins
  adjacent literals.
\<close>

definition DW_mappings_dat :: string where
  "DW_mappings_dat =
     ''r15,15'' @
     ''r14,14'' @
     ''r13,13'' @
     ''r12,12'' @
     ''rbp,6'' @
     ''rbx,3'' @
     ''r11,11'' @
     ''r10,10'' @
     ''r9,9'' @
     ''r8,8'' @
     ''rax,0'' @
     ''rcx,2'' @
     ''rdx,1'' @
     ''rsi,4'' @
     ''rdi,5'' @
     ''orig_rax,-1'' @
     ''rip,-1'' @
     ''cs,51'' @
     ''eflags,49'' @
     ''rsp,7'' @
     ''ss,52'' @
     ''fs_base,58'' @
     ''gs_base,59'' @
     ''ds,53'' @
     ''es,50'' @
     ''fs,54'' @
     ''gs,55''"

text \<open>
  One turn of the outer loop copies the characters before the next comma into a buffer of 16
  bytes, from there into a row of 12 bytes, and lets \<open>strtol\<close> read the number and move \<open>dat\<close>
  behind it. A string without a further comma, a name that does not fit or a 28th chunk would
  leave the arrays, which is \<open>None\<close>.
\<close>

function load_DW_loop :: "string \<Rightarrow> nat \<Rightarrow> reg_tables \<Rightarrow> reg_tables option" where
  "load_DW_loop dat regNum t =
     (if dat = [] then Some t
      else let buffer = takeWhile (\<lambda>c. c \<noteq> CHR '','') dat;
               rest = drop (length buffer) dat
           in if rest = [] \<or> 12 \<le> length buffer \<or> 27 \<le> regNum then None
              else let (v, dat') = strtoll 10 (tl rest)
                   in load_DW_loop dat' (Suc regNum)
                        (t\<lparr>registerAbbr := (registerAbbr t)[regNum := buffer],
                           DWARFMappings := (DWARFMappings t)[regNum := v]\<rparr>))"
  by pat_completeness auto

lemma load_DW_loop_shrinks:
  assumes "dat \<noteq> []" and "drop (length (takeWhile P dat)) dat \<noteq> []"
  shows "length (snd (strtoll b (tl (drop (length (takeWhile P dat)) dat)))) < length dat"
proof -
  have "length (snd (strtoll b (tl (drop (length (takeWhile P dat)) dat))))
      \<le> length (tl (drop (length (takeWhile P dat)) dat))"
    by (rule strtoll_rest_length)
  also have "\<dots> < length dat" using assms by (cases dat) auto
  finally show ?thesis .
qed

termination load_DW_loop
  by (relation "measure (\<lambda>(dat, _, _). length dat)")
     (auto dest: load_DW_loop_shrinks [where b = 10] simp: prod_eq_iff)

declare load_DW_loop.simps [simp del]

text \<open>Static arrays start out zeroed.\<close>

definition empty_tables :: reg_tables where
  "empty_tables = \<lparr>DWARFMappings = replicate 27 0, registerAbbr = replicate 27 []\<rparr>"

definition load_DW_mappings :: "reg_tables option" where
  "load_DW_mappings = load_DW_loop DW_mappings_dat 0 empty_tables"

subsection \<open>Look-ups\<close>

definition reg_to_DW :: "reg_tables \<Rightarrow> REGISTER \<Rightarrow> int" where
  "reg_to_DW t reg = (if reg \<ge> NUM_REGISTERS then NO_SUCH_REGISTER
     else DWARFMappings t ! unat reg)"

text \<open>\<open>reg_to_abbr\<close> returns its status and the new contents of the caller's buffer.\<close>

definition reg_to_abbr :: "reg_tables \<Rightarrow> REGISTER \<Rightarrow> string \<Rightarrow> int \<times> string" where
  "reg_to_abbr t reg buf = (if reg \<ge> NUM_REGISTERS then (NO_SUCH_REGISTER, buf)
     else (0, registerAbbr t ! unat reg))"

text \<open>Both searches scan the table from register \<open>i\<close> up and return the first match.\<close>

function abbr_loop :: "reg_tables \<Rightarrow> string \<Rightarrow> nat \<Rightarrow> REGISTER" where
  "abbr_loop t abbr i =
     (if i < 27 then if abbr = registerAbbr t ! i then of_nat i else abbr_loop t abbr (Suc i)
      else of_int NO_SUCH_REGISTER)"
  by pat_completeness auto
termination by (relation "measure (\<lambda>(_, _, i). 27 - i)") auto

function DW_loop :: "reg_tables \<Rightarrow> int \<Rightarrow> nat \<Rightarrow> REGISTER" where
  "DW_loop t DWARFN i =
     (if i < 27 then if DWARFMappings t ! i = DWARFN then of_nat i else DW_loop t DWARFN (Suc i)
      else of_int NO_SUCH_REGISTER)"
  by pat_completeness auto
termination by (relation "measure (\<lambda>(_, _, i). 27 - i)") auto

declare abbr_loop.simps [simp del] DW_loop.simps [simp del]

definition abbr_to_reg :: "reg_tables \<Rightarrow> string \<Rightarrow> REGISTER" where
  "abbr_to_reg t abbr = abbr_loop t abbr 0"

definition DW_to_reg :: "reg_tables \<Rightarrow> int \<Rightarrow> REGISTER" where
  "DW_to_reg t DWARFN = DW_loop t DWARFN 0"

subsection \<open>Field pointers\<close>

text \<open>
  The pointer that \<open>get_register\<close> stores in \<open>*reg_output\<close> is the pair of reading and writing
  the field it points to.
\<close>

type_synonym reg_ptr = "(regs_struct \<Rightarrow> UWORD) \<times> (UWORD \<Rightarrow> regs_struct \<Rightarrow> regs_struct)"

definition get_register :: "REGISTER \<Rightarrow> int \<times> reg_ptr option" where
  "get_register reg =
     (if reg = REG_r15 then (0, Some (r15, \<lambda>v s. s\<lparr>r15 := v\<rparr>)) else
     (if reg = REG_r14 then (0, Some (r14, \<lambda>v s. s\<lparr>r14 := v\<rparr>)) else
     (if reg = REG_r13 then (0, Some (r13, \<lambda>v s. s\<lparr>r13 := v\<rparr>)) else
     (if reg = REG_r12 then (0, Some (r12, \<lambda>v s. s\<lparr>r12 := v\<rparr>)) else
     (if reg = REG_rbp then (0, Some (rbp, \<lambda>v s. s\<lparr>rbp := v\<rparr>)) else
     (if reg = REG_rbx then (0, Some (rbx, \<lambda>v s. s\<lparr>rbx := v\<rparr>)) else
     (if reg = REG_r11 then (0, Some (r11, \<lambda>v s. s\<lparr>r11 := v\<rparr>)) else
     (if reg = REG_r10 then (0, Some (r10, \<lambda>v s. s\<lparr>r10 := v\<rparr>)) else
     (if reg = REG_r9 then (0, Some (r9, \<lambda>v s. s\<lparr>r9 := v\<rparr>)) else
     (if reg = REG_r8 then (0, Some (r8, \<lambda>v s. s\<lparr>r8 := v\<rparr>)) else
     (if reg = REG_rax then (0, Some (rax, \<lambda>v s. s\<lparr>rax := v\<rparr>)) else
     (if reg = REG_rcx then (0, Some (rcx, \<lambda>v s. s\<lparr>rcx := v\<rparr>)) else
     (if reg = REG_rdx then (0, Some (rdx, \<lambda>v s. s\<lparr>rdx := v\<rparr>)) else
     (if reg = REG_rsi then (0, Some (rsi, \<lambda>v s. s\<lparr>rsi := v\<rparr>)) else
     (if reg = REG_rdi then (0, Some (rdi, \<lambda>v s. s\<lparr>rdi := v\<rparr>)) else
     (if reg = REG_orig_rax then (0, Some (orig_rax, \<lambda>v s. s\<lparr>orig_rax := v\<rparr>)) else
     (if reg = REG_rip then (0, Some (rip, \<lambda>v s. s\<lparr>rip := v\<rparr>)) else
     (if reg = REG_cs then (0, Some (cs, \<lambda>v s. s\<lparr>cs := v\<rparr>)) else
     (if reg = REG_eflags then (0, Some (eflags, \<lambda>v s. s\<lparr>eflags := v\<rparr>)) else
     (if reg = REG_rsp then (0, Some (rsp, \<lambda>v s. s\<lparr>rsp := v\<rparr>)) else
     (if reg = REG_ss then (0, Some (ss, \<lambda>v s. s\<lparr>ss := v\<rparr>)) else
     (if reg = REG_fs_base then (0, Some (fs_base, \<lambda>v s. s\<lparr>fs_base := v\<rparr>)) else
     (if reg = REG_gs_base then (0, Some (gs_base, \<lambda>v s. s\<lparr>gs_base := v\<rparr>)) else
     (if reg = REG_ds then (0, Some (ds, \<lambda>v s. s\<lparr>ds := v\<rparr>)) else
     (if reg = REG_es then (0, Some (es, \<lambda>v s. s\<lparr>es := v\<rparr>)) else
     (if reg = REG_fs then (0, Some (fs, \<lambda>v s. s\<lparr>fs := v\<rparr>)) else
     (if reg = REG_gs then (0, Some (gs, \<lambda>v s. s\<lparr>gs := v\<rparr>)) else
      (1, None))))))))))))))))))))))))))))"

text \<open>\<open>print_registers\<close> prints one line per register: its abbreviation and its value.\<close>

definition print_registers :: "reg_tables \<Rightarrow> regs_struct \<Rightarrow> (string \<times> UWORD) list option" where
  "print_registers t regs =
     those (map (\<lambda>i. case get_register (of_nat i) of
                     (_, Some p) \<Rightarrow> Some (registerAbbr t ! i, fst p regs)
                   | (_, None) \<Rightarrow> None) [0..<27])"

subsection \<open>The tables after loading\<close>

text \<open>
  The entries of the initialiser, as a list in the order of the enum. The README lists other DWARF
  numbers for the flags, the segments and their bases.
\<close>

definition register_info :: "(string \<times> int) list" where
  "register_info =
    [(''r15'', 15), (''r14'', 14), (''r13'', 13), (''r12'', 12), (''rbp'', 6),
     (''rbx'', 3), (''r11'', 11), (''r10'', 10), (''r9'', 9), (''r8'', 8),
     (''rax'', 0), (''rcx'', 2), (''rdx'', 1), (''rsi'', 4), (''rdi'', 5),
     (''orig_rax'', -1), (''rip'', -1), (''cs'', 51), (''eflags'', 49), (''rsp'', 7),
     (''ss'', 52), (''fs_base'', 58), (''gs_base'', 59), (''ds'', 53), (''es'', 50),
     (''fs'', 54), (''gs'', 55)]"

definition loaded_tables :: reg_tables where
  "loaded_tables = \<lparr>DWARFMappings = map snd register_info, registerAbbr = map fst register_info\<rparr>"

lemma loaded_abbr_distinct: "distinct (registerAbbr loaded_tables)"
  by (simp add: loaded_tables_def register_info_def)

lemma loaded_lengths [simp]:
  "length (DWARFMappings loaded_tables) = 27" "length (registerAbbr loaded_tables) = 27"
  by (simp_all add: loaded_tables_def register_info_def)

lemma load_DW_mappings_table: "load_DW_mappings = Some loaded_tables"
  by code_simp

text \<open>A table in packed form, and the entries that this form can hold.\<close>

definition int_text :: "int \<Rightarrow> string" where
  "int_text v = (if v < 0 then CHR ''-'' # nat_text 8 (nat (- v)) else nat_text 8 (nat v))"

definition packed :: "(string \<times> int) list \<Rightarrow> string" where
  "packed tab = concat (map (\<lambda>(name, v). name @ CHR '','' # int_text v) tab)"

definition plain_entry :: "string \<times> int \<Rightarrow> bool" where
  "plain_entry e \<longleftrightarrow> length (fst e) < 12 \<and> CHR '','' \<notin> set (fst e) \<and> (fst e \<noteq> [] \<longrightarrow> \<not> is_digit 10 (hd (fst e)))
     \<and> - (2 ^ 31) \<le> snd e \<and> snd e < 2 ^ 31"

lemma takeWhile_more: "\<forall>x\<in>set xs. P x \<Longrightarrow> ys = [] \<or> \<not> P (hd ys) \<Longrightarrow> takeWhile P (xs @ ys) = xs"
  by (cases ys) (simp_all add: takeWhile_append2)

lemma strtoll_more:
  assumes "- (2 ^ 31) \<le> v" "v < 2 ^ 31" "r = [] \<or> \<not> is_digit 10 (hd r)"
  shows "strtoll 10 (int_text v @ r) = (v, r)"
proof -
  let ?t = "\<lambda>n. nat_text 8 n"
  note t = nat_text_parts [of 8, simplified]
  have skip: "skip_0x 10 x = x" for x by (simp add: skip_0x_def)
  have hd: "?t n \<noteq> [] \<and> hd (?t n @ r) = hd (?t n)" for n by simp
  have tw: "takeWhile (is_digit 10) (?t n @ r) = ?t n" for n
    using takeWhile_more [where P = "is_digit 10" and xs = "?t n" and ys = r] assms(3) t(1) [of n]
      set_takeWhileD [of _ "is_digit 10" "?t n"] by metis
  have dw: "dropWhile is_space (?t n @ r) = ?t n @ r" for n
    using t(3) [of n] by (cases "?t n") auto
  have val: "digits_val 10 (?t n) = int n" for n using nat_text_val [of 8 n] by simp
  have clamp: "clamp_ll v = v" using assms(1,2) by (simp add: clamp_ll_id)
  have minus: "\<not> is_space (CHR ''-'')" by (simp add: is_space_def)
  show ?thesis
  proof (cases "v < 0")
    case True
    then show ?thesis using clamp
      by (simp add: int_text_def strtoll_def Let_def minus skip tw val)
  next
    case False
    then show ?thesis using clamp t(4,5) [of "nat v"]
      by (simp add: int_text_def strtoll_def Let_def dw skip tw val hd)
  qed
qed

lemma packed_head: "\<forall>e\<in>set tab. plain_entry e \<Longrightarrow> packed tab = [] \<or> \<not> is_digit 10 (hd (packed tab))"
  by (cases tab) (auto simp: packed_def plain_entry_def is_digit_def digit_of_def hd_append split: prod.splits)

lemma load_DW_loop_entries:
  assumes "\<forall>e\<in>set tab. plain_entry e" "length vs = i" "length ns = i" "i \<le> 27"
  shows "load_DW_loop (packed tab) i \<lparr>DWARFMappings = vs @ replicate (27 - i) 0, registerAbbr = ns @ replicate (27 - i) []\<rparr> =
    (if i + length tab \<le> 27
     then Some \<lparr>DWARFMappings = vs @ map snd tab @ replicate (27 - i - length tab) 0,
       registerAbbr = ns @ map fst tab @ replicate (27 - i - length tab) []\<rparr>
     else None)"
  using assms
proof (induction tab arbitrary: i vs ns)
  case Nil
  then show ?case by (simp add: packed_def load_DW_loop.simps)
next
  case (Cons e tab)
  obtain name v where e: "e = (name, v)" by (rule prod.exhaust)
  from Cons.prems(1) e have w: "length name < 12" "CHR '','' \<notin> set name" "- (2 ^ 31) \<le> v" "v < 2 ^ 31"
    by (simp_all add: plain_entry_def)
  have p: "packed (e # tab) = name @ CHR '','' # int_text v @ packed tab" by (simp add: packed_def e)
  have tw: "takeWhile (\<lambda>c. c \<noteq> CHR '','') (packed (e # tab)) = name"
    unfolding p by (rule takeWhile_more) (use w(2) in auto)
  have num: "strtoll 10 (int_text v @ packed tab) = (v, packed tab)"
    by (rule strtoll_more [OF w(3,4) packed_head]) (use Cons.prems(1) in simp)
  have ne: "packed (e # tab) \<noteq> []" "\<not> length (packed (e # tab)) \<le> length name" by (simp_all add: p)
  have d: "drop (length name) (packed (e # tab)) = CHR '','' # int_text v @ packed tab" by (simp add: p)
  show ?case
  proof (cases "i < 27")
    case True
    then have r: "27 - i = Suc (26 - i)" "27 - Suc i = 26 - i" by simp_all
    have "load_DW_loop (packed (e # tab)) i \<lparr>DWARFMappings = vs @ replicate (27 - i) 0, registerAbbr = ns @ replicate (27 - i) []\<rparr> =
        load_DW_loop (packed tab) (Suc i) \<lparr>DWARFMappings = (vs @ [v]) @ replicate (27 - Suc i) 0,
          registerAbbr = (ns @ [name]) @ replicate (27 - Suc i) []\<rparr>"
      using ne w(1) True Cons.prems(2,3)
      by (subst load_DW_loop.simps) (simp add: tw d num Let_def r(1) list_update_append)
    with Cons.IH [of "vs @ [v]" "Suc i" "ns @ [name]"] Cons.prems True show ?thesis by (simp add: e)
  next
    case False
    with ne Cons.prems(4) show ?thesis by (subst load_DW_loop.simps) (simp add: tw d Let_def)
  qed
qed

text \<open>
  Claim C33. The parser of the packed register string is right for every table and not only for the one of the
  program: from a table whose names are shorter than 12 characters, hold no comma and do not start
  with a digit, written as names and numbers in this form, it fills the two arrays with exactly these
  names and numbers and leaves the other rows zero, as long as there are at most 27 entries; the 28th
  would leave the arrays. The string of the program is of this form.
\<close>

theorem load_DW_loop_packed:
  assumes "\<forall>e\<in>set tab. plain_entry e"
  shows "load_DW_loop (packed tab) 0 empty_tables =
    (if length tab \<le> 27
     then Some \<lparr>DWARFMappings = map snd tab @ replicate (27 - length tab) 0,
       registerAbbr = map fst tab @ replicate (27 - length tab) []\<rparr>
     else None)"
  using load_DW_loop_entries [OF assms, of "[]" 0 "[]"] by (simp add: empty_tables_def)

lemma DW_mappings_dat_packed: "DW_mappings_dat = packed register_info" "\<forall>e\<in>set register_info. plain_entry e"
  by (code_simp)+

theorem load_DW_loop_packed_witness: "load_DW_mappings = Some loaded_tables"
  using load_DW_loop_packed [OF DW_mappings_dat_packed(2)]
  by (simp add: load_DW_mappings_def DW_mappings_dat_packed(1) loaded_tables_def) (simp add: register_info_def)


subsection \<open>First-match search\<close>

text \<open>
  The two look-ups share one contract: the scan from an index returns the first index at or after
  it whose table entry is the key, and the number of \<^verbatim>\<open>NO_SUCH_REGISTER\<close> if there is none.
\<close>

locale table_search =
  fixes entry :: "'t \<Rightarrow> nat \<Rightarrow> 'k"
    and scan :: "'t \<Rightarrow> 'k \<Rightarrow> nat \<Rightarrow> REGISTER"
  assumes scan_step: "scan t k i =
     (if i < 27 then if entry t i = k then of_nat i else scan t k (Suc i)
      else of_int NO_SUCH_REGISTER)"
begin

lemma scan_first:
  assumes "i \<le> j" "j < 27" "entry t j = k" "\<And>l. i \<le> l \<Longrightarrow> l < j \<Longrightarrow> entry t l \<noteq> k"
  shows "scan t k i = of_nat j"
  using assms
proof (induction "j - i" arbitrary: i)
  case 0
  then show ?case by (simp add: scan_step [of t k i])
next
  case (Suc d)
  then have "i < j" by simp
  with Suc have "scan t k (Suc i) = of_nat j" by simp
  with Suc.prems \<open>i < j\<close> show ?case by (simp add: scan_step [of t k i])
qed

lemma scan_none:
  assumes "\<And>l. i \<le> l \<Longrightarrow> l < 27 \<Longrightarrow> entry t l \<noteq> k"
  shows "scan t k i = of_int NO_SUCH_REGISTER"
  using assms
proof (induction "27 - i" arbitrary: i)
  case 0
  then show ?case by (simp add: scan_step [of t k i])
next
  case (Suc d)
  then have "scan t k (Suc i) = of_int NO_SUCH_REGISTER" by simp
  with Suc.prems show ?case by (simp add: scan_step [of t k i])
qed

lemma scan_sound:
  assumes "scan t k 0 = r" "r \<noteq> of_int NO_SUCH_REGISTER"
  shows "unat r < 27 \<and> entry t (unat r) = k"
proof (cases "\<exists>l<27. entry t l = k")
  case True
  define j where "j = (LEAST l. entry t l = k)"
  from True obtain l where l: "l < 27" "entry t l = k" by blast
  then have j: "entry t j = k" "j \<le> l" unfolding j_def by (auto intro: LeastI Least_le)
  have "\<And>m. m < j \<Longrightarrow> entry t m \<noteq> k" unfolding j_def by (auto dest: not_less_Least)
  with j l have "scan t k 0 = of_nat j" by (intro scan_first) auto
  moreover have "unat (of_nat j :: REGISTER) = j"
    using j l by (simp add: unat_of_nat take_bit_nat_eq_self)
  ultimately show ?thesis using assms j l by auto
next
  case False
  then have "scan t k 0 = of_int NO_SUCH_REGISTER" by (intro scan_none) auto
  with assms show ?thesis by simp
qed

end

interpretation by_abbr: table_search "\<lambda>t i. registerAbbr t ! i" abbr_loop
  by unfold_locales (subst abbr_loop.simps, auto)

interpretation by_DW: table_search "\<lambda>t i. DWARFMappings t ! i" DW_loop
  by unfold_locales (subst DW_loop.simps, auto)

lemma abbr_to_reg_of:
  assumes "reg < NUM_REGISTERS"
  shows "abbr_to_reg loaded_tables (registerAbbr loaded_tables ! unat reg) = reg"
proof -
  have i: "unat reg < 27" using assms by (simp add: word_less_nat_alt)
  have "abbr_loop loaded_tables (registerAbbr loaded_tables ! unat reg) 0 = of_nat (unat reg)"
    using i loaded_abbr_distinct by (intro by_abbr.scan_first) (auto simp: nth_eq_iff_index_eq)
  then show ?thesis by (simp add: abbr_to_reg_def)
qed

text \<open>
  Claim C34. Looking a register up by the abbreviation stored for it gives the register back, for
  all 27 registers.
\<close>

theorem abbr_roundtrip:
  assumes "load_DW_mappings = Some t" "reg < NUM_REGISTERS"
  shows "abbr_to_reg t (snd (reg_to_abbr t reg buf)) = reg"
  using assms abbr_to_reg_of [of reg] by (auto simp: load_DW_mappings_table reg_to_abbr_def)

theorem abbr_roundtrip_witness:
  "\<exists>t. load_DW_mappings = Some t \<and> abbr_to_reg t (snd (reg_to_abbr t REG_rip [])) = REG_rip"
  using abbr_roundtrip [OF load_DW_mappings_table, of REG_rip "[]"]
  by (simp add: load_DW_mappings_table)


lemma loaded_DW_neg: "i < 27 \<Longrightarrow> DWARFMappings loaded_tables ! i = -1 \<longleftrightarrow> i = 15 \<or> i = 16"
proof -
  have "\<forall>i\<in>set [0..<27]. (DWARFMappings loaded_tables ! i = -1) = (i = 15 \<or> i = 16)"
    by code_simp
  then show "i < 27 \<Longrightarrow> ?thesis" by simp
qed

lemma loaded_DW_first:
  assumes "j < 27" "l < j" "j \<noteq> 16"
  shows "DWARFMappings loaded_tables ! l \<noteq> DWARFMappings loaded_tables ! j"
proof (cases "l = 16")
  case True
  with assms loaded_DW_neg [of l] loaded_DW_neg [of j] show ?thesis by auto
next
  case False
  let ?M = "(DWARFMappings loaded_tables)[16 := -2]"
  have "distinct ?M" by (simp add: loaded_tables_def register_info_def)
  then have "?M ! l \<noteq> ?M ! j"
    by (rule distinct_conv_nth [THEN iffD1, rule_format]) (use assms in simp_all)
  with assms False show ?thesis by simp
qed

text \<open>
  Looking a register up by its DWARF number gives the register back too, for every register
  that has one (all but \<open>orig_rax\<close> and \<open>rip\<close>, whose entry is -1); the search by -1 finds
  \<open>orig_rax\<close>, so \<open>rip\<close> has no number.
\<close>

lemma DW_roundtrip:
  assumes "load_DW_mappings = Some t" "reg < NUM_REGISTERS"
  shows "DW_to_reg t (reg_to_DW t reg) = (if reg_to_DW t reg = -1 then REG_orig_rax else reg)
    \<and> (reg_to_DW t reg = -1 \<longleftrightarrow> reg = REG_orig_rax \<or> reg = REG_rip)"
proof -
  let ?M = "DWARFMappings t" and ?i = "unat reg"
  have t: "t = loaded_tables" using assms(1) by (simp add: load_DW_mappings_table)
  have i: "?i < 27" using assms(2) by (simp add: word_less_nat_alt)
  have eqs: "?i = 15 \<longleftrightarrow> reg = 15" "?i = 16 \<longleftrightarrow> reg = 16"
    by (simp_all add: word_unat_eq_iff [of reg])
  have neg: "?M ! ?i = -1 \<longleftrightarrow> ?i = 15 \<or> ?i = 16" using i t loaded_DW_neg by simp
  let ?j = "if ?i = 16 then 15 else ?i"
  have same: "?M ! ?j = ?M ! ?i" using loaded_DW_neg [of 15] loaded_DW_neg [of 16] t by simp
  have "?M ! l \<noteq> ?M ! ?j" if "l < ?j" for l
    unfolding t by (rule loaded_DW_first) (use i that in \<open>auto split: if_splits\<close>)
  with same i have "DW_loop t (?M ! ?i) 0 = of_nat ?j"
    by (intro by_DW.scan_first) auto
  with assms(2) neg eqs show ?thesis by (auto simp: DW_to_reg_def reg_to_DW_def not_le)
qed

subsection \<open>The register file as an array\<close>

text \<open>The fields of the struct in enum order: the array that \<open>get_register\<close> indexes.\<close>

definition regs_array :: "regs_struct \<Rightarrow> UWORD list" where
  "regs_array s = [r15 s, r14 s, r13 s, r12 s, rbp s, rbx s, r11 s, r10 s, r9 s, r8 s, rax s, rcx s, rdx s, rsi s, rdi s, orig_rax s, rip s, cs s, eflags s, rsp s, ss s, fs_base s, gs_base s, ds s, es s, fs s, gs s]"

lemma length_regs_array [simp]: "length (regs_array s) = 27"
  by (simp add: regs_array_def)

lemma regs_array_inject: "regs_array s = regs_array s' \<longleftrightarrow> s = s'"
  by (auto simp: regs_array_def)

lemma REGISTER_cases:
  fixes reg :: REGISTER
  assumes "reg < NUM_REGISTERS"
  shows "reg \<in> set (map of_nat [0..<27])"
proof -
  have "unat reg \<in> set [0..<27]" using assms by (simp add: word_less_nat_alt)
  then have "of_nat (unat reg) \<in> set (map of_nat [0..<27] :: REGISTER list)"
    by (simp only: set_map image_eqI)
  then show ?thesis by simp
qed

lemma get_register_cases:
  "if reg < NUM_REGISTERS
   then \<exists>load store. get_register reg = (0, Some (load, store)) \<and>
          (\<forall>s v. load s = regs_array s ! unat reg
             \<and> regs_array (store v s) = (regs_array s)[unat reg := v])
   else get_register reg = (1, None)"
proof (cases "reg < NUM_REGISTERS")
  case True
  then have "reg \<in> {0,1,2,3,4,5,6,7,8,9,10,11,12,13,14,15,16,17,18,19,20,21,22,23,24,25,26}"
    using REGISTER_cases [OF True] by (simp add: upt_rec)
  then show ?thesis
    by (elim insertE emptyE) (simp_all add: get_register_def regs_array_def)
next
  case False
  then have "27 \<le> unat reg" by (simp add: word_le_nat_alt not_less)
  then have "reg \<noteq> of_nat i" if "i < 27" for i
    using that by (auto simp: unat_of_nat take_bit_nat_eq_self)
  from this [of 0] this [of 1] this [of 2] this [of 3] this [of 4] this [of 5] this [of 6] this [of 7] this [of 8] this [of 9]
    this [of 10] this [of 11] this [of 12] this [of 13] this [of 14] this [of 15] this [of 16] this [of 17] this [of 18]
    this [of 19] this [of 20] this [of 21] this [of 22] this [of 23] this [of 24] this [of 25] this [of 26]
  show ?thesis using False by (simp add: get_register_def)
qed

text \<open>
  For each of the 27 register numbers \<open>get_register\<close> succeeds, and the pointer it
  returns reads and writes exactly that element of the register file, leaving the other 26
  alone; for any other number it fails.
\<close>

theorem get_register_array:
  "if reg < NUM_REGISTERS
   then \<exists>load store. get_register reg = (0, Some (load, store)) \<and>
          (\<forall>s v. load s = regs_array s ! unat reg
             \<and> regs_array (store v s) = (regs_array s)[unat reg := v])
   else get_register reg = (1, None)"
  by (rule get_register_cases)


lemma get_register_rip [dbg_ops]:
  "get_register REG_rip = (0, Some (rip, \<lambda>v s. s\<lparr>rip := v\<rparr>))"
  by (simp add: get_register_def)

end
