(* ===== verification/Loc_Expr.thy ===== *)
theory Loc_Expr
  imports Registers "HOL-Library.Signed_Division"
begin

section \<open>One operation of a DWARF location expression (\<^verbatim>\<open>debugger/loc_expr.c\<close>, \<^verbatim>\<open>loc_expr.h\<close>)\<close>

text \<open>
  The evaluation state of a location expression: a fixed array of 256 words used as a stack, and
  the facts about the stopped process that operations read. \<open>parse_opcode\<close> executes one
  operation. Reading a word of the debugged process is the parameter \<open>peek\<close>: what
  \<open>ptrace(PTRACE_PEEKDATA)\<close> returned for a process id and an address, and whether it set \<open>errno\<close>.

  Signed negation wraps, as the machine instruction does in the \<open>-O0\<close> build; the divisions that
  trap on the machine (by zero, and of the least number by -1) are \<open>None\<close>.
\<close>

subsection \<open>Data\<close>

abbreviation (input) EXPR_STACK_SIZE :: nat where "EXPR_STACK_SIZE \<equiv> 256"

abbreviation (input) EXPR_INDEX_OOB :: int where "EXPR_INDEX_OOB \<equiv> 0xff"
abbreviation (input) EXPR_STACK_UNDERFLOW :: int where "EXPR_STACK_UNDERFLOW \<equiv> 0x100"
abbreviation (input) EXPR_STACK_OVERFLOW :: int where "EXPR_STACK_OVERFLOW \<equiv> 0x101"
abbreviation (input) UNIMPLEMENTED_OP_CODE :: int where "UNIMPLEMENTED_OP_CODE \<equiv> 0x102"
abbreviation (input) INVALID_OPCODE :: int where "INVALID_OPCODE \<equiv> 0x103"

abbreviation (input) RESULT_REGISTER :: int where "RESULT_REGISTER \<equiv> -1"
abbreviation (input) RESULT_ADDRESS :: int where "RESULT_ADDRESS \<equiv> -2"
abbreviation (input) RESULT_VALUE :: int where "RESULT_VALUE \<equiv> -3"
abbreviation (input) RESULT_IMPLICIT_VALUE :: int where "RESULT_IMPLICIT_VALUE \<equiv> -4"
abbreviation (input) RESULT_IMPLICIT_POINTER :: int where "RESULT_IMPLICIT_POINTER \<equiv> -5"
abbreviation (input) NEXT_OP :: int where "NEXT_OP \<equiv> 0"
abbreviation (input) PARSE_PIECE :: int where "PARSE_PIECE \<equiv> 1"

record Loc_Info =
  li_c_pid :: UWORD
  li_load_address :: UWORD
  callee_regs_cur_value :: regs_struct
  callee_regs_entry_value :: regs_struct
  caller_sp :: UWORD
  caller_ip :: UWORD
  frame_base :: UWORD
  obj_addr :: UWORD
  inital :: UWORD
  h_initial :: byte

text \<open>The union \<^verbatim>\<open>Value\<close> is its 64 bits; \<open>sint\<close> reads its signed member.\<close>

record Loc_Expr =
  loc_info :: Loc_Info
  op_stack :: "UWORD list"
  stack_top :: nat

type_synonym peek_fn = "UWORD \<Rightarrow> addr \<Rightarrow> UWORD \<times> bool"

subsection \<open>The stack\<close>

definition push_expr_tkn :: "Loc_Expr \<Rightarrow> UWORD \<Rightarrow> int \<times> Loc_Expr" where
  "push_expr_tkn e tkn =
     (if stack_top e = EXPR_STACK_SIZE then (EXPR_STACK_OVERFLOW, e)
      else (0, e\<lparr>op_stack := (op_stack e)[stack_top e := tkn], stack_top := stack_top e + 1\<rparr>))"

text \<open>The popped word is the right value; on underflow \<open>*data\<close> is not assigned.\<close>

definition pop_stack_top :: "Loc_Expr \<Rightarrow> (int + UWORD) \<times> Loc_Expr" where
  "pop_stack_top e =
     (if stack_top e = 0 then (Inl EXPR_STACK_UNDERFLOW, e)
      else (Inr (op_stack e ! (stack_top e - 1)), e\<lparr>stack_top := stack_top e - 1\<rparr>))"

text \<open>
  The two idioms of the code: pop or return the error, push or return the error, and go on.
\<close>

definition pop_or_ret :: "('s \<Rightarrow> (int + 'v) \<times> 's) \<Rightarrow> 's \<Rightarrow> ('v \<Rightarrow> 's \<Rightarrow> int \<times> 's) \<Rightarrow> int \<times> 's" where
  "pop_or_ret pop e k = (case pop e of (Inl res, e') \<Rightarrow> (res, e') | (Inr b, e') \<Rightarrow> k b e')"

definition push_or_ret :: "('s \<Rightarrow> 'v \<Rightarrow> int \<times> 's) \<Rightarrow> 's \<Rightarrow> 'v \<Rightarrow> ('s \<Rightarrow> int \<times> 's) \<Rightarrow> int \<times> 's" where
  "push_or_ret push e v k = (case push e v of (res, e') \<Rightarrow> if res \<noteq> 0 then (res, e') else k e')"

abbreviation "popped \<equiv> pop_or_ret pop_stack_top"
abbreviation "pushed \<equiv> push_or_ret push_expr_tkn"

subsection \<open>Operations\<close>

definition expr_ptrace_peek_data :: "peek_fn \<Rightarrow> UWORD \<Rightarrow> addr \<Rightarrow> int \<times> UWORD" where
  "expr_ptrace_peek_data peek pid a =
     (case peek pid a of (d, err) \<Rightarrow> (if d = -1 \<and> err then (1, d) else (0, d)))"

definition parse_op_addr :: "Loc_Expr \<Rightarrow> UWORD \<Rightarrow> int \<times> Loc_Expr" where
  "parse_op_addr e op1 = push_expr_tkn e (op1 + li_load_address (loc_info e))"

definition parse_op_deref :: "peek_fn \<Rightarrow> Loc_Expr \<Rightarrow> UWORD \<Rightarrow> int \<times> Loc_Expr" where
  "parse_op_deref peek e sz = popped e (\<lambda>b e.
     case expr_ptrace_peek_data peek (li_c_pid (loc_info e)) b of (res, b) \<Rightarrow>
       if res \<noteq> 0 then (res, e)
       else if sz > 8 then (1, e)
       else let b = (if sz < 8 then b AND (push_bit (unat sz) 1 - 1) else b)
            in push_expr_tkn e b)"

definition parse_op_dup :: "Loc_Expr \<Rightarrow> int \<times> Loc_Expr" where
  "parse_op_dup e = popped e (\<lambda>b e. pushed e b (\<lambda>e. push_expr_tkn e b))"

definition parse_op_pick :: "Loc_Expr \<Rightarrow> UWORD \<Rightarrow> int \<times> Loc_Expr" where
  "parse_op_pick e op1 =
     (if op1 \<ge> of_nat (stack_top e) then (EXPR_INDEX_OOB, e)
      else push_expr_tkn e (op_stack e ! (stack_top e - 1 - unat op1)))"

definition parse_op_swap :: "Loc_Expr \<Rightarrow> int \<times> Loc_Expr" where
  "parse_op_swap e = popped e (\<lambda>b e. popped e (\<lambda>c e.
     pushed e b (\<lambda>e. push_expr_tkn e c)))"

definition parse_op_rot :: "Loc_Expr \<Rightarrow> int \<times> Loc_Expr" where
  "parse_op_rot e = popped e (\<lambda>a e. popped e (\<lambda>b e. popped e (\<lambda>c e.
     pushed e a (\<lambda>e. pushed e c (\<lambda>e. push_expr_tkn e b)))))"

definition parse_op_abs :: "Loc_Expr \<Rightarrow> int \<times> Loc_Expr" where
  "parse_op_abs e = popped e (\<lambda>b e. push_expr_tkn e (if sint b < 0 then - b else b))"

definition parse_op_plus_uconst :: "Loc_Expr \<Rightarrow> UWORD \<Rightarrow> int \<times> Loc_Expr" where
  "parse_op_plus_uconst e op1 = popped e (\<lambda>b e. push_expr_tkn e (b + op1))"

definition parse_op_shl :: "Loc_Expr \<Rightarrow> int \<times> Loc_Expr" where
  "parse_op_shl e = popped e (\<lambda>b e. popped e (\<lambda>c e.
     if b \<ge> 64 then push_expr_tkn e 0 else push_expr_tkn e (drop_bit (unat b) c)))"

definition parse_op_shr :: "Loc_Expr \<Rightarrow> int \<times> Loc_Expr" where
  "parse_op_shr e = popped e (\<lambda>b e. popped e (\<lambda>c e.
     if b \<ge> 64 then push_expr_tkn e 0 else push_expr_tkn e (push_bit (unat b) c)))"

definition parse_op_shra :: "Loc_Expr \<Rightarrow> int \<times> Loc_Expr" where
  "parse_op_shra e = popped e (\<lambda>b e. popped e (\<lambda>c e.
     if b \<ge> 64 then push_expr_tkn e 0
     else let neg = (sint c < 0);
              c = (if neg then - c else c);
              r = drop_bit (unat b) c;
              r = (if neg then - r else r)
          in push_expr_tkn e r))"

text \<open>\<open>parse_op_bra\<close> also returns the new value of \<open>*bytes\<close>.\<close>

definition parse_op_bra :: "Loc_Expr \<Rightarrow> UWORD \<Rightarrow> 16 word \<Rightarrow> int \<times> Loc_Expr \<times> 16 word" where
  "parse_op_bra e op1 bytes = (case pop_stack_top e of
     (Inl res, e') \<Rightarrow> (res, e', bytes)
   | (Inr b, e') \<Rightarrow> (0, e', if b \<noteq> 0 then ucast op1 else 0))"

text \<open>Truncating signed division, as the machine computes it; \<open>None\<close> where it traps.\<close>

definition c_sdiv :: "UWORD \<Rightarrow> UWORD \<Rightarrow> UWORD option" where
  "c_sdiv c b = (if b = 0 \<or> sint c = - (2 ^ 63) \<and> sint b = -1 then None
     else Some (word_of_int (sint c sdiv sint b)))"

definition c_umod :: "UWORD \<Rightarrow> UWORD \<Rightarrow> UWORD option" where
  "c_umod c b = (if b = 0 then None else Some (c mod b))"

text \<open>The two pops come first, so a trap needs two operands.\<close>

definition trap_binop ::
  "(UWORD \<Rightarrow> UWORD \<Rightarrow> UWORD option) \<Rightarrow> Loc_Expr \<Rightarrow> (int \<times> Loc_Expr) option" where
  "trap_binop f e = (case pop_stack_top e of
     (Inl res, e1) \<Rightarrow> Some (res, e1)
   | (Inr b, e1) \<Rightarrow> (case pop_stack_top e1 of
        (Inl res, e2) \<Rightarrow> Some (res, e2)
      | (Inr c, e2) \<Rightarrow> (case f c b of None \<Rightarrow> None | Some v \<Rightarrow> Some (push_expr_tkn e2 v))))"

definition parse_op_div :: "Loc_Expr \<Rightarrow> (int \<times> Loc_Expr) option" where
  "parse_op_div e = trap_binop c_sdiv e"

definition parse_op_plus_div :: "Loc_Expr \<Rightarrow> (int \<times> Loc_Expr) option" where
  "parse_op_plus_div e = trap_binop c_sdiv e"

text \<open>
  The macros \<^verbatim>\<open>UBINOP\<close> and \<^verbatim>\<open>SBINOP\<close>; both ignore the result of the push, which cannot fail
  after two pops, and the code behind them returns 0.
\<close>

definition UBINOP :: "(UWORD \<Rightarrow> UWORD \<Rightarrow> UWORD) \<Rightarrow> Loc_Expr \<Rightarrow> int \<times> Loc_Expr" where
  "UBINOP f e = popped e (\<lambda>b e. popped e (\<lambda>c e. (0, snd (push_expr_tkn e (f c b)))))"

definition SBINOP :: "(int \<Rightarrow> int \<Rightarrow> bool) \<Rightarrow> Loc_Expr \<Rightarrow> int \<times> Loc_Expr" where
  "SBINOP f e = popped e (\<lambda>b e. popped e (\<lambda>c e.
     (0, snd (push_expr_tkn e (if f (sint c) (sint b) then 1 else 0)))))"

text \<open>A push followed by the report that a register is the result.\<close>

definition push_register :: "Loc_Expr \<Rightarrow> UWORD \<Rightarrow> int \<times> Loc_Expr" where
  "push_register e v = pushed e v (\<lambda>e. (RESULT_REGISTER, e))"


subsection \<open>Operation codes\<close>

text \<open>The numbers that the DWARF standard gives to the operations.\<close>

abbreviation (input) DW_OP_addr :: int where "DW_OP_addr \<equiv> 0x03"
abbreviation (input) DW_OP_deref :: int where "DW_OP_deref \<equiv> 0x06"
abbreviation (input) DW_OP_const1u :: int where "DW_OP_const1u \<equiv> 0x08"
abbreviation (input) DW_OP_const1s :: int where "DW_OP_const1s \<equiv> 0x09"
abbreviation (input) DW_OP_const2u :: int where "DW_OP_const2u \<equiv> 0x0a"
abbreviation (input) DW_OP_const2s :: int where "DW_OP_const2s \<equiv> 0x0b"
abbreviation (input) DW_OP_const4u :: int where "DW_OP_const4u \<equiv> 0x0c"
abbreviation (input) DW_OP_const4s :: int where "DW_OP_const4s \<equiv> 0x0d"
abbreviation (input) DW_OP_const8u :: int where "DW_OP_const8u \<equiv> 0x0e"
abbreviation (input) DW_OP_const8s :: int where "DW_OP_const8s \<equiv> 0x0f"
abbreviation (input) DW_OP_constu :: int where "DW_OP_constu \<equiv> 0x10"
abbreviation (input) DW_OP_consts :: int where "DW_OP_consts \<equiv> 0x11"
abbreviation (input) DW_OP_dup :: int where "DW_OP_dup \<equiv> 0x12"
abbreviation (input) DW_OP_drop :: int where "DW_OP_drop \<equiv> 0x13"
abbreviation (input) DW_OP_over :: int where "DW_OP_over \<equiv> 0x14"
abbreviation (input) DW_OP_pick :: int where "DW_OP_pick \<equiv> 0x15"
abbreviation (input) DW_OP_swap :: int where "DW_OP_swap \<equiv> 0x16"
abbreviation (input) DW_OP_rot :: int where "DW_OP_rot \<equiv> 0x17"
abbreviation (input) DW_OP_xderef :: int where "DW_OP_xderef \<equiv> 0x18"
abbreviation (input) DW_OP_abs :: int where "DW_OP_abs \<equiv> 0x19"
abbreviation (input) DW_OP_and :: int where "DW_OP_and \<equiv> 0x1a"
abbreviation (input) DW_OP_div :: int where "DW_OP_div \<equiv> 0x1b"
abbreviation (input) DW_OP_minus :: int where "DW_OP_minus \<equiv> 0x1c"
abbreviation (input) DW_OP_mod :: int where "DW_OP_mod \<equiv> 0x1d"
abbreviation (input) DW_OP_mul :: int where "DW_OP_mul \<equiv> 0x1e"
abbreviation (input) DW_OP_neg :: int where "DW_OP_neg \<equiv> 0x1f"
abbreviation (input) DW_OP_not :: int where "DW_OP_not \<equiv> 0x20"
abbreviation (input) DW_OP_or :: int where "DW_OP_or \<equiv> 0x21"
abbreviation (input) DW_OP_plus :: int where "DW_OP_plus \<equiv> 0x22"
abbreviation (input) DW_OP_plus_uconst :: int where "DW_OP_plus_uconst \<equiv> 0x23"
abbreviation (input) DW_OP_shl :: int where "DW_OP_shl \<equiv> 0x24"
abbreviation (input) DW_OP_shr :: int where "DW_OP_shr \<equiv> 0x25"
abbreviation (input) DW_OP_shra :: int where "DW_OP_shra \<equiv> 0x26"
abbreviation (input) DW_OP_xor :: int where "DW_OP_xor \<equiv> 0x27"
abbreviation (input) DW_OP_bra :: int where "DW_OP_bra \<equiv> 0x28"
abbreviation (input) DW_OP_eq :: int where "DW_OP_eq \<equiv> 0x29"
abbreviation (input) DW_OP_ge :: int where "DW_OP_ge \<equiv> 0x2a"
abbreviation (input) DW_OP_gt :: int where "DW_OP_gt \<equiv> 0x2b"
abbreviation (input) DW_OP_le :: int where "DW_OP_le \<equiv> 0x2c"
abbreviation (input) DW_OP_lt :: int where "DW_OP_lt \<equiv> 0x2d"
abbreviation (input) DW_OP_ne :: int where "DW_OP_ne \<equiv> 0x2e"
abbreviation (input) DW_OP_skip :: int where "DW_OP_skip \<equiv> 0x2f"
abbreviation (input) DW_OP_lit0 :: int where "DW_OP_lit0 \<equiv> 0x30"
abbreviation (input) DW_OP_lit31 :: int where "DW_OP_lit31 \<equiv> 0x4f"
abbreviation (input) DW_OP_reg0 :: int where "DW_OP_reg0 \<equiv> 0x50"
abbreviation (input) DW_OP_reg31 :: int where "DW_OP_reg31 \<equiv> 0x6f"
abbreviation (input) DW_OP_breg0 :: int where "DW_OP_breg0 \<equiv> 0x70"
abbreviation (input) DW_OP_breg31 :: int where "DW_OP_breg31 \<equiv> 0x8f"
abbreviation (input) DW_OP_regx :: int where "DW_OP_regx \<equiv> 0x90"
abbreviation (input) DW_OP_fbreg :: int where "DW_OP_fbreg \<equiv> 0x91"
abbreviation (input) DW_OP_bregx :: int where "DW_OP_bregx \<equiv> 0x92"
abbreviation (input) DW_OP_piece :: int where "DW_OP_piece \<equiv> 0x93"
abbreviation (input) DW_OP_deref_size :: int where "DW_OP_deref_size \<equiv> 0x94"
abbreviation (input) DW_OP_xderef_size :: int where "DW_OP_xderef_size \<equiv> 0x95"
abbreviation (input) DW_OP_nop :: int where "DW_OP_nop \<equiv> 0x96"
abbreviation (input) DW_OP_push_object_address :: int where "DW_OP_push_object_address \<equiv> 0x97"
abbreviation (input) DW_OP_call2 :: int where "DW_OP_call2 \<equiv> 0x98"
abbreviation (input) DW_OP_call4 :: int where "DW_OP_call4 \<equiv> 0x99"
abbreviation (input) DW_OP_call_ref :: int where "DW_OP_call_ref \<equiv> 0x9a"
abbreviation (input) DW_OP_form_tls_address :: int where "DW_OP_form_tls_address \<equiv> 0x9b"
abbreviation (input) DW_OP_call_frame_cfa :: int where "DW_OP_call_frame_cfa \<equiv> 0x9c"
abbreviation (input) DW_OP_bit_piece :: int where "DW_OP_bit_piece \<equiv> 0x9d"
abbreviation (input) DW_OP_implicit_value :: int where "DW_OP_implicit_value \<equiv> 0x9e"
abbreviation (input) DW_OP_stack_value :: int where "DW_OP_stack_value \<equiv> 0x9f"
abbreviation (input) DW_OP_implicit_pointer :: int where "DW_OP_implicit_pointer \<equiv> 0xa0"
abbreviation (input) DW_OP_addrx :: int where "DW_OP_addrx \<equiv> 0xa1"
abbreviation (input) DW_OP_constx :: int where "DW_OP_constx \<equiv> 0xa2"
abbreviation (input) DW_OP_entry_value :: int where "DW_OP_entry_value \<equiv> 0xa3"
abbreviation (input) DW_OP_const_type :: int where "DW_OP_const_type \<equiv> 0xa4"
abbreviation (input) DW_OP_regval_type :: int where "DW_OP_regval_type \<equiv> 0xa5"
abbreviation (input) DW_OP_deref_type :: int where "DW_OP_deref_type \<equiv> 0xa6"
abbreviation (input) DW_OP_xderef_type :: int where "DW_OP_xderef_type \<equiv> 0xa7"
abbreviation (input) DW_OP_convert :: int where "DW_OP_convert \<equiv> 0xa8"
abbreviation (input) DW_OP_reinterpret :: int where "DW_OP_reinterpret \<equiv> 0xa9"

text \<open>
  \<open>const_ops\<close> are the ten operations that push their operand, and with them \<open>DW_OP_deref_size\<close>,
  whose label stands at the head of that group.
\<close>

definition const_ops :: "int set" where
  "const_ops = {DW_OP_deref_size, DW_OP_const1u, DW_OP_const1s, DW_OP_const2u, DW_OP_const2s,
     DW_OP_const4u, DW_OP_const4s, DW_OP_const8u, DW_OP_const8s, DW_OP_constu, DW_OP_consts}"

definition unimplemented_ops :: "int set" where
  "unimplemented_ops = {DW_OP_addrx, DW_OP_constx, DW_OP_entry_value, DW_OP_bit_piece, DW_OP_call2, DW_OP_call4, DW_OP_call_ref,
     DW_OP_form_tls_address, DW_OP_const_type, DW_OP_regval_type, DW_OP_deref_type,
     DW_OP_convert, DW_OP_reinterpret}"

text \<open>The six comparisons.\<close>

definition parse_compare_op :: "Loc_Expr \<Rightarrow> int \<Rightarrow> int \<times> Loc_Expr" where
  "parse_compare_op e op =
    (if op = DW_OP_eq then SBINOP (=) e
     else if op = DW_OP_ge then SBINOP (\<ge>) e
     else if op = DW_OP_gt then SBINOP (>) e
     else if op = DW_OP_le then SBINOP (\<le>) e
     else if op = DW_OP_lt then SBINOP (<) e
     else SBINOP (\<noteq>) e)"

text \<open>The 32 literals.\<close>

definition parse_lit_op :: "Loc_Expr \<Rightarrow> int \<Rightarrow> int \<times> Loc_Expr" where
  "parse_lit_op e op = push_expr_tkn e (word_of_int (op - DW_OP_lit0))"

text \<open>
  The operations that name a register or an offset from one: \<open>reg0\<close> to \<open>bregx\<close>, the codes
  0x50 to 0x92. \<open>b0\<close> is the indeterminate value of the local \<open>b\<close> that the last case adds to.
\<close>

definition parse_register_op :: "UWORD \<Rightarrow> Loc_Expr \<Rightarrow> int \<Rightarrow> UWORD \<Rightarrow> UWORD \<Rightarrow> int \<times> Loc_Expr" where
  "parse_register_op b0 e op op1 op2 =
    (if op \<le> DW_OP_reg31 then push_register e (word_of_int (op - DW_OP_reg0))
     else if op \<le> DW_OP_breg31 then
       (case get_register (word_of_int (op - DW_OP_breg0)) of
          (res, Some p) \<Rightarrow> push_expr_tkn e (fst p (callee_regs_cur_value (loc_info e)))
        | (res, None) \<Rightarrow> (res, e))
     else if op = DW_OP_regx then push_register e op1
     else if op = DW_OP_fbreg then push_expr_tkn e (frame_base (loc_info e) + op1)
     else
       (case get_register (ucast op1) of
          (res, Some p) \<Rightarrow>
            push_expr_tkn e (b0 + (fst p (callee_regs_cur_value (loc_info e)) + op2))
        | (res, None) \<Rightarrow> (res, e)))"

text \<open>The rest of the switch, from \<open>DW_OP_piece\<close> to the default case; it also sets \<open>*bytes\<close>.\<close>

definition parse_misc_op :: "Loc_Expr \<Rightarrow> int \<Rightarrow> UWORD \<Rightarrow> 16 word \<Rightarrow> int \<times> Loc_Expr \<times> 16 word" where
  "parse_misc_op e op op1 bytes =
    (let ret = (\<lambda>r. (fst r, snd r, bytes)) in
     if op = DW_OP_piece then (PARSE_PIECE, e, ucast op1)
     else if op = DW_OP_nop then (0, e, bytes)
     else if op = DW_OP_push_object_address then ret (push_expr_tkn e (obj_addr (loc_info e)))
     else if op = DW_OP_call_frame_cfa then ret (push_expr_tkn e (caller_sp (loc_info e)))
     else if op = DW_OP_implicit_value then (RESULT_IMPLICIT_VALUE, e, bytes)
     else if op = DW_OP_stack_value then (RESULT_VALUE, e, bytes)
     else if op = DW_OP_implicit_pointer then (RESULT_IMPLICIT_POINTER, e, bytes)
     else if op \<in> unimplemented_ops then (UNIMPLEMENTED_OP_CODE, e, bytes)
     else (INVALID_OPCODE, e, bytes))"

text \<open>
  The switch itself. The result is the returned code, the new evaluation state and the new
  \<open>*bytes\<close>; \<open>None\<close> is a division trap.
\<close>

definition parse_opcode :: "peek_fn \<Rightarrow> UWORD \<Rightarrow> Loc_Expr \<Rightarrow> int \<Rightarrow> UWORD \<Rightarrow> UWORD \<Rightarrow> UWORD \<Rightarrow> 16 word
    \<Rightarrow> (int \<times> Loc_Expr \<times> 16 word) option" where
  "parse_opcode peek b0 e op op1 op2 op3 bytes =
    (let ret = (\<lambda>r. Some (fst r, snd r, bytes)) in
     if op = DW_OP_addr then ret (parse_op_addr e op1)
     else if op = DW_OP_deref then ret (parse_op_deref peek e 8)
     else if op \<in> const_ops then ret (push_expr_tkn e op1)
     else if op = DW_OP_dup then ret (parse_op_dup e)
     else if op = DW_OP_drop then ret (popped e (\<lambda>b e. (0, e)))
     else if op = DW_OP_over then ret (parse_op_pick e 1)
     else if op = DW_OP_pick then ret (parse_op_pick e op1)
     else if op = DW_OP_swap then ret (parse_op_swap e)
     else if op = DW_OP_rot then ret (parse_op_rot e)
     else if op \<in> {DW_OP_xderef, DW_OP_xderef_size, DW_OP_xderef_type} then
       Some (UNIMPLEMENTED_OP_CODE, e, bytes)
     else if op = DW_OP_abs then ret (parse_op_abs e)
     else if op = DW_OP_and then ret (UBINOP (AND) e)
     else if op = DW_OP_div then Option.bind (parse_op_div e) ret
     else if op = DW_OP_minus then ret (UBINOP (-) e)
     else if op = DW_OP_mod then Option.bind (trap_binop c_umod e) ret
     else if op = DW_OP_mul then ret (UBINOP (*) e)
     else if op = DW_OP_neg then ret (popped e (\<lambda>b e. push_expr_tkn e (- b)))
     else if op = DW_OP_not then ret (popped e (\<lambda>b e. push_expr_tkn e (NOT b)))
     else if op = DW_OP_or then ret (UBINOP (OR) e)
     else if op = DW_OP_plus then ret (UBINOP (+) e)
     else if op = DW_OP_plus_uconst then ret (parse_op_plus_uconst e op1)
     else if op = DW_OP_shl then ret (parse_op_shl e)
     else if op = DW_OP_shr then ret (parse_op_shr e)
     else if op = DW_OP_shra then ret (parse_op_shra e)
     else if op = DW_OP_xor then ret (UBINOP (XOR) e)
     else if op = DW_OP_skip then Some (0, e, ucast op1)
     else if op = DW_OP_bra then Some (parse_op_bra e op1 bytes)
     else if DW_OP_eq \<le> op \<and> op \<le> DW_OP_ne then ret (parse_compare_op e op)
     else if DW_OP_lit0 \<le> op \<and> op \<le> DW_OP_lit31 then ret (parse_lit_op e op)
     else if DW_OP_reg0 \<le> op \<and> op \<le> DW_OP_bregx then ret (parse_register_op b0 e op op1 op2)
     else Some (parse_misc_op e op op1 bytes))"


subsection \<open>The stack as a list\<close>

text \<open>
  The contract between the array with its index and the operations: a stack of bounded depth
  whose operations leave the rest of the state (\<open>ctx\<close>) alone. \<open>implements c r a\<close> says that the
  concrete result \<open>r\<close> (a code and a state) is well formed, has context \<open>c\<close>, and shows the code
  and the list of the abstract result \<open>a\<close>.
\<close>

definition apush :: "nat \<Rightarrow> int \<Rightarrow> 'v \<Rightarrow> 'v list \<Rightarrow> int \<times> 'v list" where
  "apush cap full v s = (if length s = cap then (full, s) else (0, v # s))"

locale bounded_stack =
  fixes push :: "'s \<Rightarrow> 'v \<Rightarrow> int \<times> 's"
    and pop :: "'s \<Rightarrow> (int + 'v) \<times> 's"
    and stk :: "'s \<Rightarrow> 'v list"
    and wf :: "'s \<Rightarrow> bool"
    and ctx :: "'s \<Rightarrow> 'c"
    and cap :: nat and full :: int and empty :: int
  assumes full_nonzero: "full \<noteq> 0"
    and push_stk: "wf e \<Longrightarrow> (fst (push e v), stk (snd (push e v))) = apush cap full v (stk e)"
    and pop_res: "wf e \<Longrightarrow> fst (pop e) = (case stk e of [] \<Rightarrow> Inl empty | v # _ \<Rightarrow> Inr v)"
    and pop_stk: "wf e \<Longrightarrow> stk (snd (pop e)) = tl (stk e)"
    and wf_push: "wf e \<Longrightarrow> wf (snd (push e v))"
    and wf_pop: "wf e \<Longrightarrow> wf (snd (pop e))"
    and ctx_push: "wf e \<Longrightarrow> ctx (snd (push e v)) = ctx e"
    and ctx_pop: "wf e \<Longrightarrow> ctx (snd (pop e)) = ctx e"
begin

definition implements :: "'c \<Rightarrow> int \<times> 's \<Rightarrow> int \<times> 'v list \<Rightarrow> bool" where
  "implements c r a \<longleftrightarrow> wf (snd r) \<and> ctx (snd r) = c \<and> (fst r, stk (snd r)) = a"

lemma implements_ret: "wf e \<Longrightarrow> ctx e = c \<Longrightarrow> a = (res, stk e) \<Longrightarrow> implements c (res, e) a"
  by (simp add: implements_def)

lemma implements_push:
  "wf e \<Longrightarrow> ctx e = c \<Longrightarrow> a = apush cap full v (stk e) \<Longrightarrow> implements c (push e v) a"
  by (simp add: implements_def wf_push ctx_push push_stk)

lemma implements_push_snd:
  assumes "wf e" "ctx e = c" "length (stk e) \<noteq> cap" "a = (0, v # stk e)"
  shows "implements c (0, snd (push e v)) a"
  using assms push_stk [of e v] wf_push [of e v] ctx_push [of e v]
  by (simp add: implements_def apush_def)

lemma implements_push_or_ret:
  assumes "wf e" "ctx e = c"
    and "length (stk e) = cap \<Longrightarrow> a = (full, stk e)"
    and "\<And>e'. length (stk e) \<noteq> cap \<Longrightarrow> wf e' \<Longrightarrow> ctx e' = c \<Longrightarrow> stk e' = v # stk e \<Longrightarrow>
        implements c (k e') a"
  shows "implements c (push_or_ret push e v k) a"
proof -
  obtain res e' where p: "push e v = (res, e')" by (cases "push e v")
  from assms(1,2) have e': "wf e'" "ctx e' = c"
    using wf_push [of e v] ctx_push [of e v] by (simp_all add: p)
  show ?thesis
  proof (cases "length (stk e) = cap")
    case True
    with push_stk [OF assms(1), of v] p full_nonzero assms(3) e' show ?thesis
      by (simp add: push_or_ret_def apush_def implements_def)
  next
    case False
    with push_stk [OF assms(1), of v] p assms(4) [OF False e'] show ?thesis
      by (simp add: push_or_ret_def apush_def)
  qed
qed

lemma implements_pop_or_ret:
  assumes "wf e" "ctx e = c"
    and "stk e = [] \<Longrightarrow> a = (empty, [])"
    and "\<And>v r e'. stk e = v # r \<Longrightarrow> wf e' \<Longrightarrow> ctx e' = c \<Longrightarrow> stk e' = r \<Longrightarrow>
        implements c (k v e') a"
  shows "implements c (pop_or_ret pop e k) a"
proof -
  obtain res e' where p: "pop e = (res, e')" by (cases "pop e")
  from assms(1,2) have e': "wf e'" "ctx e' = c" "stk e' = tl (stk e)"
    using wf_pop [of e] ctx_pop [of e] pop_stk [of e] by (simp_all add: p)
  show ?thesis
  proof (cases "stk e")
    case Nil
    with pop_res [OF assms(1)] p assms(3) e' show ?thesis
      by (simp add: pop_or_ret_def implements_def)
  next
    case (Cons v r)
    with pop_res [OF assms(1)] p assms(4) [OF Cons e'(1,2)] e' show ?thesis
      by (simp add: pop_or_ret_def)
  qed
qed

lemmas implements_intros =
  implements_push_snd implements_push implements_push_or_ret implements_pop_or_ret implements_ret

end

text \<open>The array is the stack read from its top; cells at and above the index are garbage.\<close>

definition stk :: "Loc_Expr \<Rightarrow> UWORD list" where
  "stk e = rev (take (stack_top e) (op_stack e))"

definition wf_expr :: "Loc_Expr \<Rightarrow> bool" where
  "wf_expr e = (length (op_stack e) = EXPR_STACK_SIZE \<and> stack_top e \<le> EXPR_STACK_SIZE)"

lemma length_stk: "wf_expr e \<Longrightarrow> length (stk e) = stack_top e"
  by (simp add: stk_def wf_expr_def)

interpretation array_stack: bounded_stack push_expr_tkn pop_stack_top stk wf_expr loc_info
    EXPR_STACK_SIZE EXPR_STACK_OVERFLOW EXPR_STACK_UNDERFLOW
proof
  fix e v assume wf: "wf_expr e"
  show "(fst (push_expr_tkn e v), stk (snd (push_expr_tkn e v))) =
      apush EXPR_STACK_SIZE EXPR_STACK_OVERFLOW v (stk e)"
    using wf length_stk [OF wf]
    by (auto simp: push_expr_tkn_def apush_def stk_def wf_expr_def take_Suc_conv_app_nth)
  show "wf_expr (snd (push_expr_tkn e v))" "loc_info (snd (push_expr_tkn e v)) = loc_info e"
    using wf by (auto simp: push_expr_tkn_def wf_expr_def)
  show "wf_expr (snd (pop_stack_top e))" "loc_info (snd (pop_stack_top e)) = loc_info e"
    using wf by (auto simp: pop_stack_top_def wf_expr_def)
  show "fst (pop_stack_top e) = (case stk e of [] \<Rightarrow> Inl EXPR_STACK_UNDERFLOW | v # _ \<Rightarrow> Inr v)"
    "stk (snd (pop_stack_top e)) = tl (stk e)"
    using wf take_Suc_conv_app_nth [of "stack_top e - 1" "op_stack e"]
    by (auto simp: pop_stack_top_def stk_def wf_expr_def)
qed simp

lemmas stack_rules = array_stack.implements_intros
lemmas binop_rules = array_stack.implements_push_snd array_stack.implements_pop_or_ret


subsection \<open>The operations on a list\<close>

text \<open>
  The specification: what each operation does to the stack as a list, top first. An operation
  with too few operands consumes those it finds and reports the underflow.
\<close>

abbreviation "lpush \<equiv> apush EXPR_STACK_SIZE EXPR_STACK_OVERFLOW"
abbreviation (input) "lunder \<equiv> (EXPR_STACK_UNDERFLOW, [])"

fun list_unop :: "(UWORD \<Rightarrow> UWORD) \<Rightarrow> UWORD list \<Rightarrow> int \<times> UWORD list" where
  "list_unop f (b # r) = (0, f b # r)"
| "list_unop f [] = lunder"

fun list_binop :: "(UWORD \<Rightarrow> UWORD \<Rightarrow> UWORD) \<Rightarrow> UWORD list \<Rightarrow> int \<times> UWORD list" where
  "list_binop f (b # c # r) = (0, f c b # r)"
| "list_binop f s = lunder"

fun list_trap :: "(UWORD \<Rightarrow> UWORD \<Rightarrow> UWORD option) \<Rightarrow> UWORD list \<Rightarrow> (int \<times> UWORD list) option" where
  "list_trap f (b # c # r) = map_option (\<lambda>v. (0, v # r)) (f c b)"
| "list_trap f s = Some lunder"

fun list_dup :: "UWORD list \<Rightarrow> int \<times> UWORD list" where
  "list_dup (b # r) = lpush b (b # r)"
| "list_dup [] = lunder"

fun list_drop :: "UWORD list \<Rightarrow> int \<times> UWORD list" where
  "list_drop (b # r) = (0, r)"
| "list_drop [] = lunder"

definition list_pick :: "nat \<Rightarrow> UWORD list \<Rightarrow> int \<times> UWORD list" where
  "list_pick n s = (if length s \<le> n then (EXPR_INDEX_OOB, s) else lpush (s ! n) s)"

fun list_swap :: "UWORD list \<Rightarrow> int \<times> UWORD list" where
  "list_swap (b # c # r) = (0, c # b # r)"
| "list_swap s = lunder"

fun list_rot :: "UWORD list \<Rightarrow> int \<times> UWORD list" where
  "list_rot (a # b # c # r) = (0, b # c # a # r)"
| "list_rot s = lunder"

fun list_deref :: "peek_fn \<Rightarrow> UWORD \<Rightarrow> UWORD list \<Rightarrow> int \<times> UWORD list" where
  "list_deref peek pid (b # r) =
     (case peek pid b of (d, err) \<Rightarrow> if d = -1 \<and> err then (1, r) else (0, d # r))"
| "list_deref peek pid [] = lunder"

definition list_register :: "UWORD \<Rightarrow> UWORD list \<Rightarrow> int \<times> UWORD list" where
  "list_register v s = (if length s = EXPR_STACK_SIZE then (EXPR_STACK_OVERFLOW, s)
     else (RESULT_REGISTER, v # s))"

definition bool_word :: "bool \<Rightarrow> UWORD" where "bool_word p = (if p then 1 else 0)"

text \<open>The shifts and the arithmetic shift as the code computes them.\<close>

definition shl_word :: "UWORD \<Rightarrow> UWORD \<Rightarrow> UWORD" where
  "shl_word c b = (if b \<ge> 64 then 0 else drop_bit (unat b) c)"

definition shr_word :: "UWORD \<Rightarrow> UWORD \<Rightarrow> UWORD" where
  "shr_word c b = (if b \<ge> 64 then 0 else push_bit (unat b) c)"

definition shra_word :: "UWORD \<Rightarrow> UWORD \<Rightarrow> UWORD" where
  "shra_word c b = (if b \<ge> 64 then 0
     else if sint c < 0 then - drop_bit (unat b) (- c) else drop_bit (unat b) c)"

lemma stk_bound: "wf_expr e \<Longrightarrow> length (stk e) \<le> EXPR_STACK_SIZE"
  by (simp add: length_stk) (simp add: wf_expr_def)

abbreviation "refines \<equiv> array_stack.implements"

lemma refine_unop:
  assumes "wf_expr e" "loc_info e = c"
  shows "refines c (popped e (\<lambda>b e. push_expr_tkn e (f b))) (list_unop f (stk e))"
  using assms stk_bound [OF assms(1)] by (auto intro!: stack_rules simp: apush_def)

lemma refine_UBINOP:
  assumes "wf_expr e" "loc_info e = c"
  shows "refines c (UBINOP f e) (list_binop f (stk e))"
  unfolding UBINOP_def
  using assms stk_bound [OF assms(1)] by (auto intro!: binop_rules)

lemma refine_SBINOP:
  assumes "wf_expr e" "loc_info e = c"
  shows "refines c (SBINOP f e) (list_binop (\<lambda>c b. bool_word (f (sint c) (sint b))) (stk e))"
  unfolding SBINOP_def
  using assms stk_bound [OF assms(1)] by (auto intro!: binop_rules simp: bool_word_def)

lemma refine_shifts:
  assumes "wf_expr e" "loc_info e = c"
  shows "refines c (parse_op_shl e) (list_binop shl_word (stk e))"
    and "refines c (parse_op_shr e) (list_binop shr_word (stk e))"
    and "refines c (parse_op_shra e) (list_binop shra_word (stk e))"
  unfolding parse_op_shl_def parse_op_shr_def parse_op_shra_def Let_def
  using assms stk_bound [OF assms(1)]
  by (auto intro!: stack_rules simp: apush_def shl_word_def shr_word_def shra_word_def)

lemma refine_stack_ops:
  assumes "wf_expr e" "loc_info e = c"
  shows "refines c (parse_op_dup e) (list_dup (stk e))"
    and "refines c (popped e (\<lambda>b e. (0, e))) (list_drop (stk e))"
    and "refines c (parse_op_swap e) (list_swap (stk e))"
    and "refines c (parse_op_rot e) (list_rot (stk e))"
  unfolding parse_op_dup_def parse_op_swap_def parse_op_rot_def
  using assms stk_bound [OF assms(1)] by (auto intro!: stack_rules simp: apush_def)

lemma refine_pick:
  assumes "wf_expr e" "loc_info e = c"
  shows "refines c (parse_op_pick e n) (list_pick (unat n) (stk e))"
proof -
  have top: "stack_top e \<le> 256" "length (op_stack e) = 256" using assms by (simp_all add: wf_expr_def)
  then have "unat (of_nat (stack_top e) :: UWORD) = stack_top e"
    by (simp add: unat_of_nat take_bit_nat_eq_self)
  then have le: "of_nat (stack_top e) \<le> n \<longleftrightarrow> stack_top e \<le> unat n"
    by (simp add: word_le_nat_alt)
  have "stk e ! unat n = op_stack e ! (stack_top e - 1 - unat n)" if "unat n < stack_top e"
    using that top by (simp add: stk_def rev_nth min_absorb2)
  with assms le show ?thesis
    by (auto simp: parse_op_pick_def list_pick_def length_stk not_le intro!: stack_rules)
qed

lemma refine_deref:
  assumes "wf_expr e" "loc_info e = c"
  shows "refines c (parse_op_deref peek e 8) (list_deref peek (li_c_pid c) (stk e))"
  unfolding parse_op_deref_def
  using assms stk_bound [OF assms(1)]
  by (auto intro!: stack_rules simp: apush_def expr_ptrace_peek_data_def split: prod.splits)

lemma pop_view:
  assumes "wf_expr e"
  obtains e' where
    "pop_stack_top e = ((case stk e of [] \<Rightarrow> Inl EXPR_STACK_UNDERFLOW | v # _ \<Rightarrow> Inr v), e')"
    "wf_expr e'" "loc_info e' = loc_info e" "stk e' = tl (stk e)"
  using that [of "snd (pop_stack_top e)"] array_stack.pop_res [OF assms] array_stack.pop_stk [OF assms]
    array_stack.wf_pop [OF assms] array_stack.ctx_pop [OF assms]
  by (simp add: prod_eq_iff)

lemma refine_trap:
  assumes "wf_expr e" "loc_info e = c"
  shows "rel_option (refines c) (trap_binop f e) (list_trap f (stk e))"
proof -
  obtain e1 where e1: "pop_stack_top e =
      ((case stk e of [] \<Rightarrow> Inl EXPR_STACK_UNDERFLOW | v # _ \<Rightarrow> Inr v), e1)"
    "wf_expr e1" "loc_info e1 = c" "stk e1 = tl (stk e)"
    using pop_view [OF assms(1)] assms(2) by metis
  obtain e2 where e2: "pop_stack_top e1 =
      ((case stk e1 of [] \<Rightarrow> Inl EXPR_STACK_UNDERFLOW | v # _ \<Rightarrow> Inr v), e2)"
    "wf_expr e2" "loc_info e2 = c" "stk e2 = tl (stk e1)"
    using pop_view [OF e1(2)] e1(3) by metis
  show ?thesis
  proof (cases "(f, stk e)" rule: list_trap.cases)
    case (1 f' b c' r)
    then have "length r < 256" using stk_bound [OF assms(1)] by simp
    with 1 e1 e2 show ?thesis
      by (auto simp: trap_binop_def apush_def split: option.splits
          intro!: array_stack.implements_push)
  qed (use e1 e2 in \<open>auto simp: trap_binop_def intro!: array_stack.implements_ret\<close>)
qed


text \<open>
  Tables: the word function of each binary, unary and trapping operation, and the word that each
  pushing operation pushes, given the facts \<open>c\<close> about the process.
\<close>

definition binop_of :: "int \<Rightarrow> (UWORD \<Rightarrow> UWORD \<Rightarrow> UWORD) option" where
  "binop_of op =
    (if op = DW_OP_and then Some (AND) else if op = DW_OP_or then Some (OR)
     else if op = DW_OP_xor then Some (XOR) else if op = DW_OP_plus then Some (+)
     else if op = DW_OP_minus then Some (-) else if op = DW_OP_mul then Some (*)
     else if op = DW_OP_shl then Some shl_word else if op = DW_OP_shr then Some shr_word
     else if op = DW_OP_shra then Some shra_word
     else if op = DW_OP_eq then Some (\<lambda>c b. bool_word (sint c = sint b))
     else if op = DW_OP_ge then Some (\<lambda>c b. bool_word (sint c \<ge> sint b))
     else if op = DW_OP_gt then Some (\<lambda>c b. bool_word (sint c > sint b))
     else if op = DW_OP_le then Some (\<lambda>c b. bool_word (sint c \<le> sint b))
     else if op = DW_OP_lt then Some (\<lambda>c b. bool_word (sint c < sint b))
     else if op = DW_OP_ne then Some (\<lambda>c b. bool_word (sint c \<noteq> sint b)) else None)"

definition unop_of :: "int \<Rightarrow> UWORD \<Rightarrow> (UWORD \<Rightarrow> UWORD) option" where
  "unop_of op op1 =
    (if op = DW_OP_neg then Some uminus else if op = DW_OP_not then Some (NOT)
     else if op = DW_OP_abs then Some (\<lambda>b. if sint b < 0 then - b else b)
     else if op = DW_OP_plus_uconst then Some (\<lambda>b. b + op1) else None)"

definition trapop_of :: "int \<Rightarrow> (UWORD \<Rightarrow> UWORD \<Rightarrow> UWORD option) option" where
  "trapop_of op =
    (if op = DW_OP_div then Some c_sdiv else if op = DW_OP_mod then Some c_umod else None)"

definition value_of :: "UWORD \<Rightarrow> Loc_Info \<Rightarrow> int \<Rightarrow> UWORD \<Rightarrow> UWORD \<Rightarrow> UWORD option" where
  "value_of b0 c op op1 op2 =
    (if op = DW_OP_addr then Some (op1 + li_load_address c)
     else if op \<in> const_ops then Some op1
     else if DW_OP_lit0 \<le> op \<and> op \<le> DW_OP_lit31 then Some (word_of_int (op - DW_OP_lit0))
     else if DW_OP_breg0 \<le> op \<and> op < DW_OP_breg0 + 27 then
       Some (regs_array (callee_regs_cur_value c) ! nat (op - DW_OP_breg0))
     else if op = DW_OP_fbreg then Some (frame_base c + op1)
     else if op = DW_OP_bregx \<and> (ucast op1 :: REGISTER) < NUM_REGISTERS then
       Some (b0 + (regs_array (callee_regs_cur_value c) ! unat (ucast op1 :: REGISTER) + op2))
     else if op = DW_OP_push_object_address then Some (obj_addr c)
     else if op = DW_OP_call_frame_cfa then Some (caller_sp c) else None)"

text \<open>The whole operation on lists: code, new stack and new \<open>*bytes\<close>.\<close>

definition list_opcode :: "peek_fn \<Rightarrow> UWORD \<Rightarrow> Loc_Info \<Rightarrow> int \<Rightarrow> UWORD \<Rightarrow> UWORD \<Rightarrow> 16 word
    \<Rightarrow> UWORD list \<Rightarrow> (int \<times> UWORD list \<times> 16 word) option" where
  "list_opcode peek b0 c op op1 op2 bytes s =
    (let ret = (\<lambda>r. Some (fst r, snd r, bytes)) in
     case binop_of op of Some f \<Rightarrow> ret (list_binop f s) | None \<Rightarrow>
     (case unop_of op op1 of Some f \<Rightarrow> ret (list_unop f s) | None \<Rightarrow>
     (case trapop_of op of Some f \<Rightarrow> Option.bind (list_trap f s) ret | None \<Rightarrow>
     (case value_of b0 c op op1 op2 of Some v \<Rightarrow> ret (lpush v s) | None \<Rightarrow>
      if op = DW_OP_deref then ret (list_deref peek (li_c_pid c) s)
      else if op = DW_OP_dup then ret (list_dup s)
      else if op = DW_OP_drop then ret (list_drop s)
      else if op = DW_OP_over then ret (list_pick 1 s)
      else if op = DW_OP_pick then ret (list_pick (unat op1) s)
      else if op = DW_OP_swap then ret (list_swap s)
      else if op = DW_OP_rot then ret (list_rot s)
      else if DW_OP_reg0 \<le> op \<and> op \<le> DW_OP_reg31 \<or> op = DW_OP_regx then
        ret (list_register (if op = DW_OP_regx then op1 else word_of_int (op - DW_OP_reg0)) s)
      else if op = DW_OP_skip then Some (0, s, ucast op1)
      else if op = DW_OP_bra then
        Some (case s of [] \<Rightarrow> (EXPR_STACK_UNDERFLOW, [], bytes)
              | b # r \<Rightarrow> (0, r, if b \<noteq> 0 then ucast op1 else 0))
      else if op = DW_OP_piece then Some (PARSE_PIECE, s, ucast op1)
      else if op = DW_OP_nop then Some (0, s, bytes)
      else if DW_OP_breg0 \<le> op \<and> op \<le> DW_OP_breg31 \<or> op = DW_OP_bregx then Some (1, s, bytes)
      else if op = DW_OP_implicit_value then Some (RESULT_IMPLICIT_VALUE, s, bytes)
      else if op = DW_OP_stack_value then Some (RESULT_VALUE, s, bytes)
      else if op = DW_OP_implicit_pointer then Some (RESULT_IMPLICIT_POINTER, s, bytes)
      else if op \<in> unimplemented_ops \<union> {DW_OP_xderef, DW_OP_xderef_size, DW_OP_xderef_type} then
        Some (UNIMPLEMENTED_OP_CODE, s, bytes)
      else Some (INVALID_OPCODE, s, bytes)))))"

text \<open>The relation between a concrete and an abstract result.\<close>

definition same_result ::
  "Loc_Info \<Rightarrow> (int \<times> Loc_Expr \<times> 16 word) option \<Rightarrow> (int \<times> UWORD list \<times> 16 word) option \<Rightarrow> bool" where
  "same_result c r a = rel_option
     (\<lambda>(res, e, by) (res', s, by'). res = res' \<and> by = by' \<and> wf_expr e \<and> loc_info e = c \<and> stk e = s) r a"

lemma same_resultI:
  "refines c r a \<Longrightarrow> same_result c (Some (fst r, snd r, bytes)) (Some (fst a, snd a, bytes))"
  by (auto simp: same_result_def array_stack.implements_def)

lemma same_result_bindI:
  assumes "rel_option (refines c) r a"
  shows "same_result c (Option.bind r (\<lambda>r. Some (fst r, snd r, bytes)))
    (Option.bind a (\<lambda>r. Some (fst r, snd r, bytes)))"
  using assms by (cases r; cases a) (auto simp: same_result_def array_stack.implements_def)

lemma same_result_pure:
  "wf_expr e \<Longrightarrow> loc_info e = c \<Longrightarrow> same_result c (Some (res, e, by)) (Some (res, stk e, by))"
  by (simp add: same_result_def)

lemma refine_push:
  "wf_expr e \<Longrightarrow> loc_info e = c \<Longrightarrow> refines c (push_expr_tkn e v) (lpush v (stk e))"
  by (rule array_stack.implements_push) simp_all

lemma refine_push_register:
  assumes "wf_expr e" "loc_info e = c"
  shows "refines c (push_register e v) (list_register v (stk e))"
  unfolding push_register_def list_register_def using assms by (auto intro!: stack_rules)


lemma get_register_load:
  assumes "reg < NUM_REGISTERS"
  obtains store where "get_register reg = (0, Some (\<lambda>s. regs_array s ! unat reg, store))"
proof -
  from assms get_register_cases [of reg] obtain load store where
    g: "get_register reg = (0, Some (load, store))" "\<And>s. load s = regs_array s ! unat reg" by auto
  then have "load = (\<lambda>s. regs_array s ! unat reg)" by (simp add: fun_eq_iff)
  with g that show thesis by simp
qed

lemma get_register_fail: "\<not> reg < NUM_REGISTERS \<Longrightarrow> get_register reg = (1, None)"
  using get_register_cases [of reg] by simp

lemma refine_lit:
  assumes "wf_expr e" "loc_info e = c" "DW_OP_lit0 \<le> op" "op \<le> DW_OP_lit31"
  shows "same_result c (parse_opcode peek b0 e op op1 op2 op3 bytes)
    (list_opcode peek b0 c op op1 op2 bytes (stk e))"
  using same_resultI [OF refine_push [OF assms(1,2), of "word_of_int (op - DW_OP_lit0)"], of bytes] assms(3,4)
  by (simp add: parse_opcode_def list_opcode_def const_ops_def parse_lit_op_def binop_of_def
      unop_of_def trapop_of_def value_of_def)

lemma refine_reg:
  assumes "wf_expr e" "loc_info e = c" "DW_OP_reg0 \<le> op" "op \<le> DW_OP_reg31"
  shows "same_result c (parse_opcode peek b0 e op op1 op2 op3 bytes)
    (list_opcode peek b0 c op op1 op2 bytes (stk e))"
  using same_resultI [OF refine_push_register [OF assms(1,2), of "word_of_int (op - DW_OP_reg0)"], of bytes] assms(3,4)
  by (simp add: parse_opcode_def list_opcode_def const_ops_def parse_register_op_def binop_of_def
      unop_of_def trapop_of_def value_of_def)

lemma small_reg:
  assumes "0 \<le> k" "k < 32"
  shows "(word_of_int k :: REGISTER) < NUM_REGISTERS \<longleftrightarrow> k < 27" "unat (word_of_int k :: REGISTER) = nat k"
proof -
  have "uint (word_of_int k :: REGISTER) = k"
    using assms by (simp add: uint_word_of_int)
  then show "(word_of_int k :: REGISTER) < NUM_REGISTERS \<longleftrightarrow> k < 27" "unat (word_of_int k :: REGISTER) = nat k"
    by (simp_all add: word_less_def unat_eq_nat_uint)
qed

lemma refine_breg:
  assumes "wf_expr e" "loc_info e = c" "DW_OP_breg0 \<le> op" "op \<le> DW_OP_breg31"
  shows "same_result c (parse_opcode peek b0 e op op1 op2 op3 bytes)
    (list_opcode peek b0 c op op1 op2 bytes (stk e))"
proof -
  let ?v = "regs_array (callee_regs_cur_value c) ! nat (op - DW_OP_breg0)"
  have "0 \<le> op - DW_OP_breg0" "op - DW_OP_breg0 < 32" using assms by simp_all
  note sr = small_reg [OF this]
  show ?thesis
  proof (cases "op < DW_OP_breg0 + 27")
    case True
    with sr(1) obtain store where "get_register (word_of_int (op - DW_OP_breg0)) =
        (0, Some (\<lambda>s. regs_array s ! unat (word_of_int (op - DW_OP_breg0) :: REGISTER), store))"
      by (auto intro: get_register_load)
    with same_resultI [OF refine_push [OF assms(1,2), of ?v], of bytes] assms True sr(2) show ?thesis
      by (simp add: parse_opcode_def list_opcode_def const_ops_def parse_register_op_def binop_of_def
          unop_of_def trapop_of_def value_of_def del: of_int_diff)
  next
    case False
    with sr(1) have "get_register (word_of_int (op - DW_OP_breg0)) = (1, None)"
      by (intro get_register_fail) simp
    with same_result_pure [OF assms(1,2), of 1 bytes] assms False show ?thesis
      by (simp add: parse_opcode_def list_opcode_def const_ops_def parse_register_op_def binop_of_def
          unop_of_def trapop_of_def value_of_def del: of_int_diff)
  qed
qed


lemma refine_bregx:
  assumes "wf_expr e" "loc_info e = c"
  shows "same_result c (parse_opcode peek b0 e DW_OP_bregx op1 op2 op3 bytes)
    (list_opcode peek b0 c DW_OP_bregx op1 op2 bytes (stk e))"
proof (cases "(ucast op1 :: REGISTER) < NUM_REGISTERS")
  case True
  let ?v = "b0 + (regs_array (callee_regs_cur_value c) ! unat (ucast op1 :: REGISTER) + op2)"
  from True obtain store where "get_register (ucast op1) =
      (0, Some (\<lambda>s. regs_array s ! unat (ucast op1 :: REGISTER), store))"
    by (rule get_register_load)
  with same_resultI [OF refine_push [OF assms, of ?v], of bytes] assms True show ?thesis
    by (simp add: parse_opcode_def list_opcode_def const_ops_def parse_register_op_def binop_of_def
        unop_of_def trapop_of_def value_of_def)
next
  case False
  from get_register_fail [OF this] same_result_pure [OF assms, of 1 bytes] assms False show ?thesis
    by (simp add: parse_opcode_def list_opcode_def const_ops_def parse_register_op_def binop_of_def
        unop_of_def trapop_of_def value_of_def)
qed

lemmas opcode_tables = parse_opcode_def list_opcode_def const_ops_def unimplemented_ops_def
  parse_register_op_def parse_misc_op_def binop_of_def unop_of_def trapop_of_def value_of_def Let_def

lemma refine_bra:
  assumes "wf_expr e" "loc_info e = c"
  shows "same_result c (Some (parse_op_bra e op1 bytes))
    (Some (case stk e of [] \<Rightarrow> (EXPR_STACK_UNDERFLOW, [], bytes)
           | b # r \<Rightarrow> (0, r, if b \<noteq> 0 then ucast op1 else 0)))"
proof -
  obtain e' where "pop_stack_top e =
      ((case stk e of [] \<Rightarrow> Inl EXPR_STACK_UNDERFLOW | v # _ \<Rightarrow> Inr v), e')"
    "wf_expr e'" "loc_info e' = loc_info e" "stk e' = tl (stk e)"
    using assms(1) by (rule pop_view)
  with assms(2) show ?thesis
    by (auto simp: same_result_def parse_op_bra_def split: list.splits)
qed

lemma refine_plus_uconst:
  "wf_expr e \<Longrightarrow> loc_info e = c \<Longrightarrow>
     refines c (parse_op_plus_uconst e op1) (list_unop (\<lambda>b. b + op1) (stk e))"
  unfolding parse_op_plus_uconst_def by (rule refine_unop)

lemma refine_abs:
  "wf_expr e \<Longrightarrow> loc_info e = c \<Longrightarrow>
     refines c (parse_op_abs e) (list_unop (\<lambda>b. if sint b < 0 then - b else b) (stk e))"
  unfolding parse_op_abs_def by (rule refine_unop)

lemma refine_addr:
  "wf_expr e \<Longrightarrow> loc_info e = c \<Longrightarrow>
     refines c (parse_op_addr e op1) (lpush (op1 + li_load_address c) (stk e))"
  using refine_push [of e c "op1 + li_load_address c"] by (simp add: parse_op_addr_def)

lemma refine_singles:
  assumes "wf_expr e" "loc_info e = c"
    and "op \<in> {0x03, 0x06, 0x08, 0x09, 0x0a, 0x0b, 0x0c, 0x0d, 0x0e, 0x0f, 0x10, 0x11, 0x12, 0x13, 0x14, 0x15, 0x16, 0x17, 0x18, 0x19, 0x1a, 0x1b, 0x1c, 0x1d, 0x1e, 0x1f, 0x20, 0x21, 0x22, 0x23, 0x24, 0x25, 0x26, 0x27, 0x28, 0x29, 0x2a, 0x2b, 0x2c, 0x2d, 0x2e, 0x2f, 0x90, 0x91, 0x93, 0x94, 0x95, 0x96, 0x97, 0x98, 0x99, 0x9a, 0x9b, 0x9c, 0x9d, 0x9e, 0x9f, 0xa0, 0xa1, 0xa2, 0xa3, 0xa4, 0xa5, 0xa6, 0xa7, 0xa8, 0xa9}"
  shows "same_result c (parse_opcode peek b0 e op op1 op2 op3 bytes)
    (list_opcode peek b0 c op op1 op2 bytes (stk e))"
proof -
  note w = assms(1,2)
  note facts = refine_stack_ops [OF w, THEN same_resultI] refine_pick [OF w, THEN same_resultI]
    refine_deref [OF w, THEN same_resultI] refine_UBINOP [OF w, THEN same_resultI]
    refine_SBINOP [OF w, THEN same_resultI] refine_shifts [OF w, THEN same_resultI]
    refine_plus_uconst [OF w, THEN same_resultI] refine_abs [OF w, THEN same_resultI]
    refine_unop [OF w, THEN same_resultI] refine_push [OF w, THEN same_resultI]
    refine_addr [OF w, THEN same_resultI] refine_bra [OF w] same_result_pure [OF w]
    refine_trap [OF w, THEN same_result_bindI] refine_push_register [OF w, THEN same_resultI]
    refine_pick [OF w, of 1, THEN same_resultI, unfolded unsigned_1 One_nat_def]
  show ?thesis
    by (insert assms(3), elim insertE emptyE;
        simp add: opcode_tables parse_op_div_def parse_compare_op_def w;
        (rule facts)?)
qed


lemma parse_opcode_list:
  assumes "wf_expr e"
  shows "same_result (loc_info e) (parse_opcode peek b0 e op op1 op2 op3 bytes)
    (list_opcode peek b0 (loc_info e) op op1 op2 bytes (stk e))"
proof -
  consider "op \<in> {3, 6, 0x90, 0x91}" | "op \<in> set [8..0x2f]" | "op \<in> set [0x93..0xa9]"
    | (lit) "DW_OP_lit0 \<le> op" "op \<le> DW_OP_lit31"
    | (reg) "DW_OP_reg0 \<le> op" "op \<le> DW_OP_reg31"
    | (breg) "DW_OP_breg0 \<le> op" "op \<le> DW_OP_breg31"
    | (bregx) "op = DW_OP_bregx"
    | (other) "op \<noteq> 3" "op \<noteq> 6" "op < 8 \<or> 0xa9 < op"
  proof -
    have "op < 8 \<or> op \<in> set [8..0x2f] \<or> op \<in> {0x30..0x4f} \<or> op \<in> {0x50..0x6f} \<or> op \<in> {0x70..0x8f}
        \<or> op \<in> {0x90..0x92} \<or> op \<in> set [0x93..0xa9] \<or> 0xa9 < op"
      unfolding set_upto atLeastAtMost_iff by linarith
    moreover have "op = 0x90 \<or> op = 0x91 \<or> op = 0x92" if "op \<in> {0x90..0x92}"
      using that unfolding atLeastAtMost_iff by linarith
    ultimately show thesis
      using that by (elim disjE) (auto simp del: set_upto upto_rec_numeral)
  qed
  then show ?thesis
  proof cases
    case 1
    then show ?thesis by (intro refine_singles [OF assms refl]) auto
  next
    case 2
    then show ?thesis by (intro refine_singles [OF assms refl]) (auto simp del: set_upto)
  next
    case 3
    then show ?thesis by (intro refine_singles [OF assms refl]) (auto simp del: set_upto)
  next
    case lit
    with refine_lit [OF assms refl] show ?thesis .
  next
    case reg
    with refine_reg [OF assms refl] show ?thesis .
  next
    case breg
    with refine_breg [OF assms refl] show ?thesis .
  next
    case bregx
    with refine_bregx [OF assms refl] show ?thesis by simp
  next
    case other
    with same_result_pure [OF assms refl, of INVALID_OPCODE bytes] show ?thesis
      by (elim disjE) (simp_all add: opcode_tables other(1,2))
  qed
qed

text \<open>
  Claim C3. \<open>parse_opcode\<close> implements the list machine: on a well-formed evaluation state every
  operation code, known or not, returns the code, the stack and the branch offset that the list
  specification gives (a trap exactly where it traps), keeps the state well formed and changes
  nothing in it but the stack.
\<close>

theorem parse_opcode_refines:
  assumes "wf_expr e"
  shows "same_result (loc_info e) (parse_opcode peek b0 e op op1 op2 op3 bytes)
    (list_opcode peek b0 (loc_info e) op op1 op2 bytes (stk e))"
  using assms by (rule parse_opcode_list)


text \<open>The evaluation state that \<open>get_var_location\<close> starts from, before any initial push.\<close>

definition init_expr :: "Loc_Info \<Rightarrow> Loc_Expr" where
  "init_expr info = \<lparr>loc_info = info, op_stack = replicate EXPR_STACK_SIZE 0, stack_top = 0\<rparr>"

lemma init_expr_ok [stk_ops]:
  "wf_expr (init_expr info)" "stk (init_expr info) = []" "loc_info (init_expr info) = info"
  by (simp_all add: init_expr_def wf_expr_def stk_def)

definition expr_with :: "Loc_Info \<Rightarrow> UWORD list \<Rightarrow> Loc_Expr" where
  "expr_with info s = \<lparr>loc_info = info,
     op_stack = rev s @ replicate (EXPR_STACK_SIZE - length s) 0, stack_top = length s\<rparr>"

lemma expr_with_ok [stk_ops]:
  "length s \<le> EXPR_STACK_SIZE \<Longrightarrow> wf_expr (expr_with info s)"
  "length s \<le> EXPR_STACK_SIZE \<Longrightarrow> stk (expr_with info s) = s"
  "loc_info (expr_with info s) = info"
  by (simp_all add: expr_with_def wf_expr_def stk_def)

theorem parse_opcode_refines_witness:
  "\<forall>peek b0 info. \<exists>e'. parse_opcode peek b0 (expr_with info [3, 10]) DW_OP_div 0 0 0 0 = Some (0, e', 0)
     \<and> stk e' = [3]"
proof (intro allI)
  fix peek b0 info
  let ?e = "expr_with info [3, 10]"
  have d: "c_sdiv 10 3 = Some 3" by (simp add: c_sdiv_def signed_divide_int_def)
  have "same_result info (parse_opcode peek b0 ?e DW_OP_div 0 0 0 0)
      (list_opcode peek b0 info DW_OP_div 0 0 0 [3, 10])"
    using parse_opcode_refines [of ?e peek b0 DW_OP_div 0 0 0 0] by (simp add: stk_ops)
  then show "\<exists>e'. parse_opcode peek b0 ?e DW_OP_div 0 0 0 0 = Some (0, e', 0) \<and> stk e' = [3]"
    by (auto simp: opcode_tables d same_result_def option_rel_Some2)
qed

lemma parse_opcode_result:
  assumes "wf_expr e" "list_opcode peek b0 (loc_info e) op op1 op2 bytes (stk e) = Some (res, s, by)"
  shows "\<exists>e'. parse_opcode peek b0 e op op1 op2 op3 bytes = Some (res, e', by) \<and> stk e' = s
     \<and> wf_expr e' \<and> loc_info e' = loc_info e"
  using parse_opcode_list [OF assms(1), of peek b0 op op1 op2 op3 bytes] assms(2)
  by (auto simp: same_result_def option_rel_Some2)

subsection \<open>Shifts and comparisons\<close>

lemma uint_neg:
  fixes c :: UWORD
  assumes "sint c < 0" shows "uint (- c) = - sint c"
proof -
  have "- (2 ^ 63) \<le> sint c" using sint_ge [of c] by simp
  have "- c = word_of_int (- sint c)" by simp
  also have "uint \<dots> = (- sint c) mod 2 ^ 64" by (simp only: uint_word_of_int) simp
  also have "\<dots> = - sint c" using assms \<open>- (2 ^ 63) \<le> sint c\<close> by simp
  finally show ?thesis .
qed

lemma sint_small: "- (2 ^ 63) \<le> k \<Longrightarrow> k < 2 ^ 63 \<Longrightarrow> sint (word_of_int k :: UWORD) = k"
  by (simp add: signed_of_int signed_take_bit_int_eq_self)

lemma uint_sint: "0 \<le> sint (c :: UWORD) \<Longrightarrow> uint c = sint c"
proof -
  assume *: "0 \<le> sint c"
  have "sint c < 2 ^ 63" using sint_lt [of c] by simp
  with * have "uint (word_of_int (sint c) :: UWORD) = sint c" by (simp only: uint_word_of_int) simp
  then show ?thesis by simp
qed

lemma uint_drop: "uint (drop_bit n (c :: UWORD)) = uint c div 2 ^ n"
proof -
  have "take_bit 64 (uint c) = uint c" using uint_bounded [of c] by (simp add: take_bit_int_eq_self)
  then show ?thesis by (subst unsigned_drop_bit_eq) (simp add: drop_bit_eq_div [of n "uint c"])
qed

lemma int_div_pow_le: "0 \<le> k \<Longrightarrow> (k :: int) div 2 ^ n \<le> k"
  using zdiv_mono2 [of k 1 "2 ^ n"] by simp

lemma sdiv_pow_iff: "a sdiv 2 ^ n = a div 2 ^ n \<longleftrightarrow> 0 \<le> a \<or> (2 ^ n :: int) dvd a"
proof (cases "0 \<le> a")
  case False
  then have "a sdiv 2 ^ n = - ((- a) div 2 ^ n)" by (simp add: signed_divide_int_def sgn_if)
  moreover have "- ((- a) div 2 ^ n) = a div 2 ^ n \<longleftrightarrow> (2 ^ n :: int) dvd a"
    by (simp add: zdiv_zminus1_eq_if dvd_eq_mod_eq_0)
  ultimately show ?thesis using False by simp
qed (auto simp: signed_divide_int_def sgn_if)

lemma sint_shra_word:
  assumes "b < 64"
  shows "sint (shra_word c b) = sint c sdiv 2 ^ unat b"
proof (cases "sint c < 0")
  case True
  let ?k = "(- sint c) div 2 ^ unat b"
  have "- (2 ^ 63) \<le> sint c" using sint_ge [of c] by simp
  moreover have "?k \<le> - sint c" using True by (intro int_div_pow_le) simp
  ultimately have k: "0 \<le> ?k" "?k \<le> 2 ^ 63" using True by (auto simp: pos_imp_zdiv_nonneg_iff)
  have "drop_bit (unat b) (- c) = word_of_int ?k"
    by (metis True uint_drop uint_neg word_of_int_uint)
  then have "shra_word c b = word_of_int (- ?k)" using assms True by (simp add: shra_word_def not_le)
  with k sint_small [of "- ?k"] True show ?thesis
    by (simp add: signed_divide_int_def sgn_if)
next
  case False
  then have c: "uint c = sint c" "0 \<le> sint c" using uint_sint by simp_all
  let ?k = "sint c div 2 ^ unat b"
  have "sint c < 2 ^ 63" using sint_lt [of c] by simp
  moreover have "?k \<le> sint c" using c by (intro int_div_pow_le) simp
  ultimately have k: "0 \<le> ?k" "?k < 2 ^ 63" using c by (auto simp: pos_imp_zdiv_nonneg_iff)
  have "drop_bit (unat b) c = word_of_int ?k"
    by (metis c(1) uint_drop word_of_int_uint)
  then have "shra_word c b = word_of_int ?k" using assms False by (simp add: shra_word_def not_le)
  with k sint_small [of ?k] c show ?thesis
    by (auto simp: signed_divide_int_def sgn_if)
qed


text \<open>
  Claim C29. Shifts with a count below 64 of the second entry by the top one: \<open>DW_OP_shl\<close> computes
  the logical shift to the right and \<open>DW_OP_shr\<close> the shift to the left (the standard has it the
  other way round); \<open>DW_OP_shra\<close> divides by the power of two rounding towards zero, which is the
  arithmetic shift exactly for the numbers that are not negative or that the power divides.
\<close>

theorem shift_ops:
  assumes "wf_expr e" "stk e = b # c # r" "b < 64"
  shows "\<exists>e1 e2 e3 v.
     parse_opcode peek b0 e DW_OP_shl op1 op2 op3 bytes = Some (0, e1, bytes)
       \<and> stk e1 = drop_bit (unat b) c # r
   \<and> parse_opcode peek b0 e DW_OP_shr op1 op2 op3 bytes = Some (0, e2, bytes)
       \<and> stk e2 = push_bit (unat b) c # r
   \<and> parse_opcode peek b0 e DW_OP_shra op1 op2 op3 bytes = Some (0, e3, bytes)
       \<and> stk e3 = v # r \<and> sint v = sint c sdiv 2 ^ unat b
       \<and> (sint v = sint c div 2 ^ unat b \<longleftrightarrow> 0 \<le> sint c \<or> 2 ^ unat b dvd sint c)"
proof -
  note run = parse_opcode_result [OF assms(1), unfolded assms(2)]
  have 1: "\<exists>e'. parse_opcode peek b0 e DW_OP_shl op1 op2 op3 bytes = Some (0, e', bytes)
      \<and> stk e' = shl_word c b # r \<and> wf_expr e' \<and> loc_info e' = loc_info e"
    by (rule run) (simp add: opcode_tables)
  have 2: "\<exists>e'. parse_opcode peek b0 e DW_OP_shr op1 op2 op3 bytes = Some (0, e', bytes)
      \<and> stk e' = shr_word c b # r \<and> wf_expr e' \<and> loc_info e' = loc_info e"
    by (rule run) (simp add: opcode_tables)
  have 3: "\<exists>e'. parse_opcode peek b0 e DW_OP_shra op1 op2 op3 bytes = Some (0, e', bytes)
      \<and> stk e' = shra_word c b # r \<and> wf_expr e' \<and> loc_info e' = loc_info e"
    by (rule run) (simp add: opcode_tables)
  have w: "shl_word c b = drop_bit (unat b) c" "shr_word c b = push_bit (unat b) c"
    using assms(3) by (simp_all add: shl_word_def shr_word_def not_le [symmetric])
  note v = sint_shra_word [OF assms(3), of c] sdiv_pow_iff [of "sint c" "unat b"]
  from 1 2 3 w v show ?thesis by metis
qed

theorem shift_ops_witness:
  "\<forall>peek b0 info. \<exists>e'. parse_opcode peek b0 (expr_with info [1, -3]) DW_OP_shra 0 0 0 0 = Some (0, e', 0)
     \<and> (\<exists>v. stk e' = [v] \<and> sint v = -1)"
  using shift_ops [of "expr_with _ [1, -3]" 1 "-3" "[]" _ _ 0 0 0 0]
  by (fastforce simp: stk_ops signed_divide_int_def)


subsection \<open>Register-relative addresses\<close>

text \<open>
  Claim C30. \<open>DW_OP_breg<n>\<close> adds nothing to the register it reads (its signed operand is
  dropped), and \<open>n\<close>, a DWARF register number, is used as the program's own register number: the
  register read is the one whose entry in the field order is \<open>n\<close>, so \<open>DW_OP_breg6\<close> reads \<open>r11\<close>
  although the loaded table gives the number 6 to \<open>rbp\<close>.
\<close>

theorem breg_wrong_register:
  assumes "wf_expr e" "length (stk e) < EXPR_STACK_SIZE" "0 \<le> n" "n < 27"
  shows "\<exists>e'. parse_opcode peek b0 e (DW_OP_breg0 + n) op1 op2 op3 bytes = Some (0, e', bytes)
      \<and> stk e' = regs_array (callee_regs_cur_value (loc_info e)) ! nat n # stk e
      \<and> regs_array r ! 6 = r11 r \<and> reg_to_DW loaded_tables REG_rbp = 6"
proof -
  have "list_opcode peek b0 (loc_info e) (DW_OP_breg0 + n) op1 op2 bytes (stk e) =
      Some (0, regs_array (callee_regs_cur_value (loc_info e)) ! nat n # stk e, bytes)"
    using assms(2-4) by (simp add: opcode_tables apush_def)
  from parse_opcode_result [OF assms(1) this, of op3]
  have "\<exists>e'. parse_opcode peek b0 e (DW_OP_breg0 + n) op1 op2 op3 bytes = Some (0, e', bytes)
      \<and> stk e' = regs_array (callee_regs_cur_value (loc_info e)) ! nat n # stk e" by blast
  moreover have "regs_array r ! 6 = r11 r" "reg_to_DW loaded_tables REG_rbp = 6"
    by (simp_all add: regs_array_def reg_to_DW_def loaded_tables_def register_info_def)
  ultimately show ?thesis by blast
qed

theorem breg_wrong_register_witness:
  "\<forall>peek b0 info. \<exists>e'. parse_opcode peek b0 (init_expr info) (0x70 + 6) (-20) 0 0 0 = Some (0, e', 0)
     \<and> stk e' = [r11 (callee_regs_cur_value info)]"
proof (intro allI)
  fix peek b0 info
  show "\<exists>e'. parse_opcode peek b0 (init_expr info) (0x70 + 6) (-20) 0 0 0 = Some (0, e', 0)
     \<and> stk e' = [r11 (callee_regs_cur_value info)]"
    using breg_wrong_register [of "init_expr info" 6 peek b0 "-20" 0 0 0 "callee_regs_cur_value info"]
    by (auto simp: stk_ops regs_array_def)
qed

end
