(* ===== verification/Eval_Expr.thy ===== *)
theory Eval_Expr
  imports Loc_Expr
begin

section \<open>Evaluating a location expression (\<^verbatim>\<open>evaluate_expr\<close> in \<^verbatim>\<open>debugger/debugger.c\<close>)\<close>

text \<open>
  The loop that fetches one operation after the other from libdwarf and executes it, with the
  branches of \<open>DW_OP_skip\<close> and \<open>DW_OP_bra\<close>. The fetch
  (\<^verbatim>\<open>dwarf_get_location_op_value_c\<close>) is the parameter \<open>fetch\<close>: the result code and the operation at
  an index. The loop may run for ever, so it takes fuel and \<open>None\<close> means that the fuel ran out; a
  straight-line expression of \<open>n\<close> operations needs \<open>n + 1\<close> units, which is proved below. The
  messages that the loop prints about failures are not modelled.
\<close>

subsection \<open>Data\<close>

record loc_op =
  lo_op :: int
  opd1 :: UWORD
  opd2 :: UWORD
  opd3 :: UWORD
  offsetforbranch :: UWORD

type_synonym fetch_fn = "nat \<Rightarrow> C_int \<times> loc_op"

text \<open>One turn of the loop goes on at an index, returns a code, or traps in a division.\<close>

datatype eval_next = Go nat Loc_Expr | Stop int | Trap

text \<open>The outcome: the returned code and the final \<open>*result\<close>, or the trap.\<close>

datatype eval_out = Ret int UWORD | Crash

subsection \<open>Branches\<close>

text \<open>
  The two search loops for the operation a branch leads to. Offsets are unsigned, and the signed
  16-bit distance is converted to them for the comparison.
\<close>

function skip_forward :: "fetch_fn \<Rightarrow> nat \<Rightarrow> UWORD \<Rightarrow> 16 word \<Rightarrow> UWORD \<Rightarrow> nat \<Rightarrow> nat option" where
  "skip_forward fetch n off skip_bytes new_offset i =
     (if new_offset - (off + 2) < scast skip_bytes \<and> i + 1 < n then
        (case fetch (i + 1) of (res, oper) \<Rightarrow>
           if res \<noteq> DW_DLV_OK then None
           else skip_forward fetch n off skip_bytes (offsetforbranch oper) (i + 1))
      else Some i)"
  by pat_completeness auto
termination by (relation "measure (\<lambda>(_, n, _, _, _, i). n - i)") auto

fun skip_backward :: "fetch_fn \<Rightarrow> UWORD \<Rightarrow> 16 word \<Rightarrow> UWORD \<Rightarrow> nat \<Rightarrow> nat option" where
  "skip_backward fetch off skip_bytes new_offset 0 = Some 0"
| "skip_backward fetch off skip_bytes new_offset (Suc i) =
     (if new_offset - (off + 2) > scast skip_bytes then
        (case fetch i of (res, oper) \<Rightarrow>
           if res \<noteq> DW_DLV_OK then None
           else skip_backward fetch off skip_bytes (offsetforbranch oper) i)
      else Some (Suc i))"

declare skip_forward.simps [simp del]

subsection \<open>The loop\<close>

text \<open>\<open>b0 i\<close> is the indeterminate word that \<open>parse_opcode\<close> may read when it executes operation \<open>i\<close>.\<close>

definition eval_step :: "peek_fn \<Rightarrow> (nat \<Rightarrow> UWORD) \<Rightarrow> fetch_fn \<Rightarrow> nat \<Rightarrow> nat \<Rightarrow> Loc_Expr \<Rightarrow> eval_next" where
  "eval_step peek b0 fetch n i e =
    (case fetch i of (res, oper) \<Rightarrow>
       if res \<noteq> DW_DLV_OK then Stop 1
       else case parse_opcode peek (b0 i) e (lo_op oper) (opd1 oper) (opd2 oper) (opd3 oper) 0 of
         None \<Rightarrow> Trap
       | Some (res, e', skip_bytes) \<Rightarrow>
           if res = PARSE_PIECE then Stop 1
           else if res \<noteq> NEXT_OP \<and> \<not> res < 0 then Stop 1
           else if skip_bytes = 0 then Go (i + 1) e'
           else (case (if 0 <s skip_bytes
                       then skip_forward fetch n (offsetforbranch oper) skip_bytes (offsetforbranch oper) i
                       else skip_backward fetch (offsetforbranch oper) skip_bytes (offsetforbranch oper) i)
                 of None \<Rightarrow> Stop 1 | Some i' \<Rightarrow> Go i' e'))"

text \<open>
  After the loop the top of the stack is popped into \<open>tp\<close>. The result code of that pop has
  replaced the code of the last operation when the \<open>switch\<close> looks at it.
\<close>

definition eval_result :: "Loc_Expr \<Rightarrow> UWORD \<Rightarrow> eval_out" where
  "eval_result e result =
    (case pop_stack_top e of
       (Inl res, e') \<Rightarrow> Ret 1 result
     | (Inr tp, e') \<Rightarrow>
         (let res = 0 :: int in
          if res = RESULT_REGISTER then
            (case get_register (ucast tp) of
               (_, Some p) \<Rightarrow> Ret 0 (fst p (callee_regs_cur_value (loc_info e')))
             | (_, None) \<Rightarrow> Ret 1 result)
          else Ret 0 tp))"

fun eval_loop :: "nat \<Rightarrow> peek_fn \<Rightarrow> (nat \<Rightarrow> UWORD) \<Rightarrow> fetch_fn \<Rightarrow> nat \<Rightarrow> nat \<Rightarrow> Loc_Expr \<Rightarrow> UWORD
    \<Rightarrow> eval_out option" where
  "eval_loop 0 peek b0 fetch n i e result = None"
| "eval_loop (Suc fuel) peek b0 fetch n i e result =
     (if i < n then
        (case eval_step peek b0 fetch n i e of
           Go i' e' \<Rightarrow> eval_loop fuel peek b0 fetch n i' e' result
         | Stop r \<Rightarrow> Some (Ret r result)
         | Trap \<Rightarrow> Some Crash)
      else Some (eval_result e result))"

definition evaluate_expr :: "nat \<Rightarrow> peek_fn \<Rightarrow> (nat \<Rightarrow> UWORD) \<Rightarrow> Loc_Expr \<Rightarrow> nat \<Rightarrow> fetch_fn \<Rightarrow> nat
    \<Rightarrow> UWORD \<Rightarrow> eval_out option" where
  "evaluate_expr fuel peek b0 e loclist_expr_op_count fetch index result =
     eval_loop fuel peek b0 fetch loclist_expr_op_count index e result"

subsection \<open>Straight-line expressions\<close>

text \<open>The operations of an expression as a list, run on the list machine of one operation.\<close>

definition fetch_list :: "loc_op list \<Rightarrow> fetch_fn" where
  "fetch_list ops i = (if i < length ops then (DW_DLV_OK, ops ! i)
     else (DW_DLV_NO_ENTRY, \<lparr>lo_op = 0, opd1 = 0, opd2 = 0, opd3 = 0, offsetforbranch = 0\<rparr>))"

text \<open>
  The specification of a whole expression: the operations are applied from left to right, an
  error code ends the evaluation with code 1, the other codes do not, and the top of the final
  stack is the result.
\<close>

fun list_eval :: "peek_fn \<Rightarrow> (nat \<Rightarrow> UWORD) \<Rightarrow> Loc_Info \<Rightarrow> nat \<Rightarrow> loc_op list \<Rightarrow> UWORD list \<Rightarrow> UWORD \<Rightarrow> eval_out" where
  "list_eval peek b0 c i [] s result = (case s of [] \<Rightarrow> Ret 1 result | v # _ \<Rightarrow> Ret 0 v)"
| "list_eval peek b0 c i (oper # ops) s result =
     (case list_opcode peek (b0 i) c (lo_op oper) (opd1 oper) (opd2 oper) 0 s of
        None \<Rightarrow> Crash
      | Some (res, s', _) \<Rightarrow> if res > 0 then Ret 1 result else list_eval peek b0 c (Suc i) ops s' result)"

definition branch_op :: "loc_op \<Rightarrow> bool" where
  "branch_op oper = (lo_op oper = DW_OP_skip \<or> lo_op oper = DW_OP_bra)"

definition no_branch :: "(int \<times> UWORD list \<times> 16 word) option \<Rightarrow> bool" where
  "no_branch r = (case r of None \<Rightarrow> True | Some (res, _, by) \<Rightarrow> by = 0 \<or> res = PARSE_PIECE)"

lemma no_branch_cases:
  "(c \<Longrightarrow> no_branch x) \<Longrightarrow> (\<not> c \<Longrightarrow> no_branch y) \<Longrightarrow> no_branch (if c then x else y)"
  "(v = None \<Longrightarrow> no_branch x) \<Longrightarrow> (\<And>f. v = Some f \<Longrightarrow> no_branch (g f)) \<Longrightarrow>
     no_branch (case v of None \<Rightarrow> x | Some f \<Rightarrow> g f)"
  by (auto split: option.splits)

lemma no_branch_ret:
  "no_branch (Some (res, s, 0))" "no_branch (Some (PARSE_PIECE, s, by))"
  "no_branch (Option.bind r (\<lambda>r. Some (fst r, snd r, 0)))"
  by (auto simp: no_branch_def bind_eq_Some_conv split: option.splits)

lemma list_opcode_bytes:
  assumes "op \<noteq> DW_OP_skip" "op \<noteq> DW_OP_bra"
  shows "no_branch (list_opcode peek b0 c op op1 op2 0 s)"
  unfolding list_opcode_def Let_def
  by (intro no_branch_cases no_branch_ret) (erule notE [OF assms(1)], erule notE [OF assms(2)])

lemma eval_result_list: "wf_expr e \<Longrightarrow>
    eval_result e result = (case stk e of [] \<Rightarrow> Ret 1 result | v # _ \<Rightarrow> Ret 0 v)"
  by (erule pop_view) (auto simp: eval_result_def split: list.splits)

lemma eval_loop_straight:
  assumes "wf_expr e" "loc_info e = c" "i \<le> length ops" "length ops - i < fuel"
    and "\<forall>oper\<in>set ops. \<not> branch_op oper"
  shows "eval_loop fuel peek b0 (fetch_list ops) (length ops) i e result =
    Some (list_eval peek b0 c i (drop i ops) (stk e) result)"
  using assms
proof (induction "length ops - i" arbitrary: i e fuel)
  case 0
  then obtain f where "fuel = Suc f" by (cases fuel) auto
  with 0 show ?case by (simp add: eval_result_list)
next
  case (Suc d)
  then obtain f where f: "fuel = Suc f" by (cases fuel) auto
  from Suc.hyps(2) have i: "i < length ops" by simp
  let ?o = "ops ! i"
  let ?c = "parse_opcode peek (b0 i) e (lo_op ?o) (opd1 ?o) (opd2 ?o) (opd3 ?o) 0"
  let ?a = "list_opcode peek (b0 i) c (lo_op ?o) (opd1 ?o) (opd2 ?o) 0 (stk e)"
  have d: "drop i ops = ?o # drop (Suc i) ops" using i by (simp add: Cons_nth_drop_Suc)
  have r: "same_result c ?c ?a" using parse_opcode_list [OF Suc.prems(1)] Suc.prems(2) by auto
  have nb: "lo_op ?o \<noteq> DW_OP_skip" "lo_op ?o \<noteq> DW_OP_bra"
    using Suc.prems(5) i by (auto simp: branch_op_def)
  show ?case
  proof (cases ?a)
    case None
    with r have "?c = None" by (simp add: same_result_def)
    with None i f d show ?thesis by (simp add: eval_step_def fetch_list_def)
  next
    case (Some t)
    then obtain res s' "by" where a: "?a = Some (res, s', by)" by (cases t) auto
    with r obtain e' where c: "?c = Some (res, e', by)" "wf_expr e'" "loc_info e' = c" "stk e' = s'"
      by (auto simp: same_result_def option_rel_Some2)
    have b0: "by = 0" if "\<not> res > 0" using list_opcode_bytes [OF nb, of peek "b0 i" c "opd1 ?o" "opd2 ?o" "stk e"] a that
      by (simp add: no_branch_def)
    have IH: "eval_loop f peek b0 (fetch_list ops) (length ops) (Suc i) e' result =
        Some (list_eval peek b0 c (Suc i) (drop (Suc i) ops) s' result)"
      using Suc.hyps(1) [of "Suc i" e' f] Suc.hyps(2) Suc.prems c i f by auto
    show ?thesis
    proof (cases "res > 0")
      case True
      with a c i f d show ?thesis by (auto simp: eval_step_def fetch_list_def)
    next
      case False
      with a c i f d IH b0 show ?thesis by (auto simp: eval_step_def fetch_list_def)
    qed
  qed
qed


lemma evaluate_straight_run:
  assumes "wf_expr e" "\<forall>oper\<in>set ops. \<not> branch_op oper" "length ops < fuel"
  shows "evaluate_expr fuel peek b0 e (length ops) (fetch_list ops) 0 result =
    Some (list_eval peek b0 (loc_info e) 0 ops (stk e) result)"
  using eval_loop_straight [OF assms(1) refl, of 0 ops fuel peek b0 result] assms
  by (simp add: evaluate_expr_def)

text \<open>
  Claim C12. An expression without branches is evaluated as its list specification says, from any
  well-formed state and with any number of fuel units above its number of operations; in
  particular the loop returns (or traps in a division) and never reads past the stack.
\<close>

theorem evaluate_straight:
  assumes "wf_expr e" "\<forall>oper\<in>set ops. \<not> branch_op oper" "length ops < fuel"
  shows "evaluate_expr fuel peek b0 e (length ops) (fetch_list ops) 0 result =
    Some (list_eval peek b0 (loc_info e) 0 ops (stk e) result)"
  by (rule evaluate_straight_run [OF assms])

definition mk_op :: "int \<Rightarrow> UWORD \<Rightarrow> UWORD \<Rightarrow> loc_op" where
  "mk_op op off op1 = \<lparr>lo_op = op, opd1 = op1, opd2 = 0, opd3 = 0, offsetforbranch = off\<rparr>"

theorem evaluate_straight_witness:
  "\<forall>peek b0 info. evaluate_expr 4 peek b0 (init_expr info) 3
     (fetch_list [mk_op DW_OP_fbreg 0 (-20), mk_op DW_OP_plus_uconst 9 4, mk_op DW_OP_dup 11 0]) 0 0
   = Some (Ret 0 (frame_base info - 16))"
  using evaluate_straight [of "init_expr _" "[mk_op DW_OP_fbreg 0 (-20), mk_op DW_OP_plus_uconst 9 4,
      mk_op DW_OP_dup 11 0]" 4 _ _ 0]
  by (simp add: stk_ops branch_op_def mk_op_def opcode_tables apush_def numeral_3_eq_3)

subsection \<open>Locations of one operation\<close>

lemma evaluate_one:
  assumes "list_eval peek b0 info 0 [oper] [] result = out" "\<not> branch_op oper" "1 < fuel"
  shows "evaluate_expr fuel peek b0 (init_expr info) 1 (fetch_list [oper]) 0 result = Some out"
  using evaluate_straight_run [of "init_expr info" "[oper]" fuel peek b0 result] assms
  by (simp add: stk_ops)

text \<open>
  The locations compilers emit most: a variable at an offset from the frame base and a
  static variable get the address the standard gives them, but the location \<open>DW_OP_reg<k>\<close>
  evaluates to the number \<open>k\<close> and not to the content of a register, because the code of the last
  operation has been overwritten when the final \<open>switch\<close> tests it.
\<close>

theorem one_op_locations:
  assumes "1 < fuel" "0 \<le> k" "k < 32"
  shows "evaluate_expr fuel peek b0 (init_expr info) 1 (fetch_list [mk_op DW_OP_fbreg 0 op1]) 0 result
      = Some (Ret 0 (frame_base info + op1))
    \<and> evaluate_expr fuel peek b0 (init_expr info) 1 (fetch_list [mk_op DW_OP_addr 0 op1]) 0 result
      = Some (Ret 0 (op1 + li_load_address info))
    \<and> evaluate_expr fuel peek b0 (init_expr info) 1 (fetch_list [mk_op DW_OP_call_frame_cfa 0 op1]) 0 result
      = Some (Ret 0 (caller_sp info))
    \<and> evaluate_expr fuel peek b0 (init_expr info) 1 (fetch_list [mk_op (DW_OP_reg0 + k) 0 op1]) 0 result
      = Some (Ret 0 (word_of_int k))"
  by (intro conjI; rule evaluate_one; use assms in \<open>simp add: branch_op_def mk_op_def opcode_tables
      apush_def list_register_def\<close>)

theorem one_op_locations_witness:
  "\<forall>peek b0 info. evaluate_expr 2 peek b0 (init_expr info) 1 (fetch_list [mk_op (0x50 + 3) 0 0]) 0 7
     = Some (Ret 0 3)"
  using one_op_locations [of 2 3 _ _ _ 0 7] by simp

subsection \<open>Branches do not reach their targets\<close>

lemma skip_operation: "wf_expr e \<Longrightarrow>
    parse_opcode peek b0 e DW_OP_skip op1 op2 op3 0 = Some (0, e, ucast op1)"
  by (simp add: parse_opcode_def const_ops_def)

lemma fetch_list_Some: "i < length ops \<Longrightarrow> fetch_list ops i = (DW_DLV_OK, ops ! i)"
  by (simp add: fetch_list_def)

lemma uint_scast16: "uint (scast (s :: 16 word) :: UWORD) = sint s mod 2 ^ 64"
  by (simp add: scast_eq uint_word_of_int del: of_int_sint)

lemma sint16_bounds: "- (2 ^ 15) \<le> sint (s :: 16 word)" "sint (s :: 16 word) < 2 ^ 15"
  using sint_ge [of s] sint_lt [of s] by simp_all

lemma uint_distance: "uint (a - (b + 2) :: UWORD) = (uint a - uint b - 2) mod 2 ^ 64"
proof -
  have "a - (b + 2) = word_of_int (uint a - uint b - 2)" by (simp add: algebra_simps)
  then show ?thesis by (simp only: uint_word_of_int) simp
qed

lemma skip_forward_stays:
  assumes "0 <s (s :: 16 word)"
  shows "skip_forward fetch n off s off i = Some i"
proof -
  have "0 < sint s" using assms by (simp add: word_sless_alt)
  with sint16_bounds(2) [of s] have "\<not> off - (off + 2) < scast s"
    by (simp add: word_less_alt uint_distance uint_scast16)
  then show ?thesis by (subst skip_forward.simps) simp
qed

text \<open>
  Claim C27. A forward \<open>DW_OP_skip\<close> makes the evaluation run for ever: the search for its target
  compares the unsigned distance \<open>-2\<close> of the operation to its own end, finds it large enough at
  once, and the loop executes the same operation again, whatever the fuel.
\<close>

theorem forward_skip_diverges:
  assumes "wf_expr e" "i < length ops" "lo_op (ops ! i) = DW_OP_skip"
    and "0 <s (ucast (opd1 (ops ! i)) :: 16 word)"
  shows "eval_loop fuel peek b0 (fetch_list ops) (length ops) i e result = None"
proof (induction fuel)
  case (Suc fuel)
  have "eval_step peek b0 (fetch_list ops) (length ops) i e = Go i e"
    using assms by (auto simp: eval_step_def fetch_list_Some skip_operation skip_forward_stays)
  with Suc assms(2) show ?case by simp
qed simp

theorem forward_skip_diverges_witness:
  "\<forall>peek b0 info. eval_loop 1000 peek b0 (fetch_list [mk_op DW_OP_skip 0 1, mk_op DW_OP_nop 3 0, mk_op DW_OP_lit0 4 0])
     3 0 (init_expr info) 0 = None"
  using forward_skip_diverges [where e = "init_expr _" and i = 0 and fuel = 1000 and result = 0 and
      ops = "[mk_op DW_OP_skip 0 1, mk_op DW_OP_nop 3 0, mk_op DW_OP_lit0 4 0]"]
  by (simp add: stk_ops mk_op_def word_sless_alt numeral_3_eq_3)

text \<open>Offsets of the operations of an expression, in increasing order.\<close>

definition offsets_ok :: "loc_op list \<Rightarrow> bool" where
  "offsets_ok ops = sorted_wrt (<) (map offsetforbranch ops)"

lemma mod_below: "- (2 ^ 64) \<le> k \<Longrightarrow> k < 0 \<Longrightarrow> k mod 2 ^ 64 = k + (2 ^ 64 :: int)"
proof -
  assume "- (2 ^ 64) \<le> k" "k < 0"
  then have "(k + 2 ^ 64) mod 2 ^ 64 = k + (2 ^ 64 :: int)" by (intro mod_pos_pos_trivial) auto
  then show ?thesis by simp
qed

lemma backward_distance:
  assumes "a \<le> b" "b < 2 ^ 63" "uint b + 3 + sint (s :: 16 word) = uint t" "sint s < 0"
  shows "a - (b + 2) > scast s \<longleftrightarrow> t \<le> (a :: UWORD)"
proof -
  have b: "uint b < 2 ^ 63" "0 \<le> uint a" "uint a \<le> uint b"
    using assms(1,2) by (simp_all add: word_le_def word_less_def)
  have r: "- (2 ^ 64) \<le> x - y - 2 \<and> x - y - 2 < 0" if "y < 2 ^ 63" "0 \<le> x" "x \<le> y" for x y :: int
    using that by simp
  have "(uint a - uint b - 2) mod 2 ^ 64 = uint a - uint b - 2 + 2 ^ 64"
    by (rule mod_below) (use r [OF b] in blast)+
  moreover have "sint s mod 2 ^ 64 = sint s + 2 ^ 64"
    by (rule mod_below) (use assms(4) sint16_bounds(1) [of s] in auto)
  ultimately have "a - (b + 2) > scast s \<longleftrightarrow> sint s < uint a - uint b - 2"
    unfolding word_less_def uint_distance uint_scast16 by linarith
  with assms(3) show ?thesis unfolding word_le_def by linarith
qed

lemma skip_backward_run:
  assumes "offsets_ok ops" "i < length ops" "0 < j" "j \<le> i" "sint (s :: 16 word) < 0"
    and "offsetforbranch (ops ! i) < 2 ^ 63"
    and "uint (offsetforbranch (ops ! i)) + 3 + sint s = uint (offsetforbranch (ops ! j))"
    and "j - 1 \<le> k" "k \<le> i"
  shows "skip_backward (fetch_list ops) (offsetforbranch (ops ! i)) s (offsetforbranch (ops ! k)) k = Some (j - 1)"
  using assms(8,9)
proof (induction k)
  case 0
  with assms(3) show ?case by simp
next
  case (Suc k)
  have mono: "offsetforbranch (ops ! a) \<le> offsetforbranch (ops ! b) \<longleftrightarrow> a \<le> b" if "a \<le> i" "b \<le> i" for a b
    using assms(1,2) that
    by (smt (verit) le_less_trans length_map linorder_not_less nat_less_le nless_le nth_map
        offsets_ok_def sorted_wrt_nth_less)
  have far: "offsetforbranch (ops ! Suc k) - (offsetforbranch (ops ! i) + 2) > scast s \<longleftrightarrow> j \<le> Suc k"
    using backward_distance [OF _ assms(6,7,5)] mono Suc.prems(2) assms(4) by simp
  show ?case
  proof (cases "j \<le> Suc k")
    case True
    with far Suc assms(2) show ?thesis by (simp add: fetch_list_Some)
  next
    case False
    with far Suc.prems show ?thesis by simp
  qed
qed

text \<open>
  Claim C28. A backward \<open>DW_OP_skip\<close> lands one operation before its target: the distance is
  counted from two bytes after the operation where the standard counts from its end, three bytes
  after it, so the search goes on past the target (unless the target is the first operation).
\<close>

theorem backward_skip_misses_target:
  assumes "wf_expr e" "offsets_ok ops" "i < length ops" "lo_op (ops ! i) = DW_OP_skip"
    and "s = ucast (opd1 (ops ! i))" "sint (s :: 16 word) < 0" "0 < j" "j \<le> i" "offsetforbranch (ops ! i) < 2 ^ 63"
    and "uint (offsetforbranch (ops ! i)) + 3 + sint s = uint (offsetforbranch (ops ! j))"
  shows "eval_step peek b0 (fetch_list ops) (length ops) i e = Go (j - 1) e"
proof -
  have "\<not> 0 <s s" "s \<noteq> 0" using assms(6) by (auto simp: word_sless_alt)
  moreover have "skip_backward (fetch_list ops) (offsetforbranch (ops ! i)) s
      (offsetforbranch (ops ! i)) i = Some (j - 1)"
    by (rule skip_backward_run [OF assms(2,3,7,8,6,9,10)]) (use assms(8) in auto)
  ultimately show ?thesis
    using assms(1,3,4) unfolding eval_step_def
    by (simp add: fetch_list_Some skip_operation assms(5) [symmetric])
qed

theorem backward_skip_misses_target_witness:
  "\<forall>peek b0 info. eval_step peek b0 (fetch_list [mk_op DW_OP_lit0 0 0, mk_op DW_OP_lit0 1 0, mk_op DW_OP_skip 2 (-4)])
     3 2 (init_expr info) = Go 0 (init_expr info)"
  using backward_skip_misses_target [where e = "init_expr _" and i = 2 and j = 1 and
      ops = "[mk_op DW_OP_lit0 0 0, mk_op DW_OP_lit0 1 0, mk_op DW_OP_skip 2 (-4)]" and s = "-4"]
  by (simp add: stk_ops mk_op_def offsets_ok_def numeral_3_eq_3)

end
