(* ===== verification/Dwarf_Info.thy ===== *)
theory Dwarf_Info
  imports Cmdline
begin

section \<open>Questions to the debug information (\<^verbatim>\<open>debugger/dwarf_info.c\<close>)\<close>

text \<open>
  The functions that look up compilation units, subprograms, line table rows, parameters and
  local variables. libdwarf is a parameter: a record of its functions, from handles to result
  codes and values. A DIE handle is \<open>None\<close> when the pointer is \<open>NULL\<close>; a \<open>Dwarf_Debug\<close> has a
  hidden cursor over the compilation units (\<open>'h\<close>), everything else is read-only. An output
  argument is assigned only when the call returns \<open>DW_DLV_OK\<close>, as libdwarf documents.

  The searches that follow handles take fuel, and \<open>NoFuel\<close> means that it ran out; the lemmas give
  enough of it. Freeing of DIE handles is modelled in \<open>get_local_var_from_name\<close>, where it
  matters; elsewhere it has no effect on results and is left out, as are the error objects.
\<close>

subsection \<open>The libdwarf interface\<close>

datatype 'a run = Value 'a | Crash_run | NoFuel

fun run_bind :: "'a run \<Rightarrow> ('a \<Rightarrow> 'b run) \<Rightarrow> 'b run" where
  "run_bind (Value a) k = k a"
| "run_bind Crash_run k = Crash_run"
| "run_bind NoFuel k = NoFuel"

abbreviation (input) DW_FORM_addr :: int where "DW_FORM_addr \<equiv> 0x01"
abbreviation (input) DW_TAG_formal_parameter :: int where "DW_TAG_formal_parameter \<equiv> 0x05"
abbreviation (input) DW_TAG_lexical_block :: int where "DW_TAG_lexical_block \<equiv> 0x0b"
abbreviation (input) DW_TAG_member :: int where "DW_TAG_member \<equiv> 0x0d"
abbreviation (input) DW_TAG_inlined_subroutine :: int where "DW_TAG_inlined_subroutine \<equiv> 0x1d"
abbreviation (input) DW_TAG_subprogram :: int where "DW_TAG_subprogram \<equiv> 0x2e"
abbreviation (input) DW_TAG_variable :: int where "DW_TAG_variable \<equiv> 0x34"
abbreviation (input) DW_AT_name :: int where "DW_AT_name \<equiv> 0x03"
abbreviation (input) DW_AT_comp_dir :: int where "DW_AT_comp_dir \<equiv> 0x1b"

text \<open>\<open>junk\<close> is the content of a local variable that was never assigned.\<close>

record ('h, 'd, 'c, 'l) dwarf_lib =
  next_cu_header :: "'h \<Rightarrow> C_int \<times> 'd option \<times> 'h"
  die_lowpc :: "'d option \<Rightarrow> C_int \<times> UWORD"
  die_highpc :: "'d option \<Rightarrow> C_int \<times> UWORD \<times> int"
  addr_form_is_indexed :: "int \<Rightarrow> bool"
  die_child :: "'d option \<Rightarrow> C_int \<times> 'd option"
  die_sibling :: "'d option \<Rightarrow> C_int \<times> 'd option"
  die_tag :: "'d option \<Rightarrow> C_int \<times> int"
  die_name :: "'d option \<Rightarrow> C_int \<times> string"
  die_text :: "'d option \<Rightarrow> int \<Rightarrow> C_int \<times> string"
  srclines_b :: "'d option \<Rightarrow> C_int \<times> 'c \<times> nat"
  srclines_from_linecontext :: "'c \<Rightarrow> C_int \<times> 'l list"
  lineaddr :: "'l \<Rightarrow> C_int \<times> UWORD"
  lineno :: "'l \<Rightarrow> C_int \<times> UWORD"
  linesrc :: "'l \<Rightarrow> C_int \<times> string"
  junk :: UWORD

subsection \<open>Address ranges\<close>

text \<open>The result code, \<open>*low_pc\<close>, and \<open>*high_pc\<close> where it is assigned.\<close>

definition get_low_high_pc_from_die ::
  "('h, 'd, 'c, 'l, 'z) dwarf_lib_scheme \<Rightarrow> 'd option \<Rightarrow> C_int \<times> UWORD \<times> UWORD option" where
  "get_low_high_pc_from_die lib die =
    (case die_lowpc lib die of (res, low) \<Rightarrow>
       if res \<noteq> DW_DLV_OK then (res, 0, None)
       else (case die_highpc lib die of (res, localhighpc, form) \<Rightarrow>
         if res \<noteq> DW_DLV_OK then (res, low, None)
         else (DW_DLV_OK, low,
           Some (if form \<noteq> DW_FORM_addr \<and> \<not> addr_form_is_indexed lib form
                 then localhighpc + low else localhighpc))))"

definition die_contains_addr_offset ::
  "('h, 'd, 'c, 'l, 'z) dwarf_lib_scheme \<Rightarrow> UWORD \<Rightarrow> 'd option \<Rightarrow> C_int \<times> bool" where
  "die_contains_addr_offset lib addr_offset die =
    (case get_low_high_pc_from_die lib die of (res, low_pc, high) \<Rightarrow>
       let high_pc = (case high of Some h \<Rightarrow> h | None \<Rightarrow> junk lib) in
       if low_pc > addr_offset then (res, False)
       else if high_pc \<le> addr_offset then (res, False)
       else (res, True))"

subsection \<open>Compilation units\<close>

text \<open>
  The loops run over the headers until libdwarf has no more (or fails) and keep the last unit that
  qualified. A loop returns the code it stopped with, the kept unit and the cursor.
\<close>

fun cu_addr_loop :: "nat \<Rightarrow> ('h, 'd, 'c, 'l, 'z) dwarf_lib_scheme \<Rightarrow> UWORD \<Rightarrow> 'h \<Rightarrow> 'd option
    \<Rightarrow> (C_int \<times> 'd option \<times> 'h) run" where
  "cu_addr_loop 0 lib addr_offset h res_cu_die = NoFuel"
| "cu_addr_loop (Suc fuel) lib addr_offset h res_cu_die =
    (case next_cu_header lib h of (res, cu_die, h') \<Rightarrow>
       if res \<noteq> DW_DLV_OK then Value (res, res_cu_die, h')
       else (case die_contains_addr_offset lib addr_offset cu_die of (res, contains_addr) \<Rightarrow>
         if res = DW_DLV_ERROR then Value (res, res_cu_die, h')
         else if res = DW_DLV_OK \<and> contains_addr then cu_addr_loop fuel lib addr_offset h' cu_die
         else cu_addr_loop fuel lib addr_offset h' res_cu_die))"

definition get_cu_from_addr :: "nat \<Rightarrow> ('h, 'd, 'c, 'l, 'z) dwarf_lib_scheme \<Rightarrow> UWORD \<Rightarrow> 'h
    \<Rightarrow> (C_int \<times> 'd option \<times> 'h) run" where
  "get_cu_from_addr fuel lib addr_offset h = cu_addr_loop fuel lib addr_offset h None"

text \<open>The path of a unit: an absolute file name replaces the directory.\<close>

definition cu_path :: "string \<Rightarrow> string \<Rightarrow> string \<times> string" where
  "cu_path dir_path file_name =
    (if file_name \<noteq> [] \<and> hd file_name = CHR ''/'' then ([], tl file_name) else (dir_path, file_name))"

fun cu_file_loop :: "nat \<Rightarrow> ('h, 'd, 'c, 'l, 'z) dwarf_lib_scheme \<Rightarrow> string \<Rightarrow> 'h \<Rightarrow> 'd option
    \<Rightarrow> (C_int \<times> 'd option \<times> 'h) run" where
  "cu_file_loop 0 lib source_file_name h found = NoFuel"
| "cu_file_loop (Suc fuel) lib source_file_name h found =
    (case next_cu_header lib h of (res, cu_die, h') \<Rightarrow>
       if res \<noteq> DW_DLV_OK then Value (res, found, h')
       else (case die_text lib cu_die DW_AT_name of (res, file_name) \<Rightarrow>
         if res \<noteq> DW_DLV_OK then
           (if res = DW_DLV_ERROR then Value (res, found, h')
            else cu_file_loop fuel lib source_file_name h' found)
         else (case die_text lib cu_die DW_AT_comp_dir of (res, dir_path) \<Rightarrow>
           if res \<noteq> DW_DLV_OK then
             (if res = DW_DLV_ERROR then Value (res, found, h')
              else cu_file_loop fuel lib source_file_name h' found)
           else (case cu_path dir_path file_name of (dir_path, file_name) \<Rightarrow>
             if merge_and_check_path source_file_name dir_path file_name
             then cu_file_loop fuel lib source_file_name h' cu_die
             else cu_file_loop fuel lib source_file_name h' found))))"

text \<open>
  A code that is neither success nor error ends the loop as \<open>DW_DLV_NO_ENTRY\<close> does (libdwarf
  returns no other); the result then depends on whether a unit was kept.
\<close>

definition get_cu_from_file_name :: "nat \<Rightarrow> ('h, 'd, 'c, 'l, 'z) dwarf_lib_scheme \<Rightarrow> string \<Rightarrow> 'h
    \<Rightarrow> (C_int \<times> 'd option \<times> 'h) run" where
  "get_cu_from_file_name fuel lib source_file_name h =
    run_bind (cu_file_loop fuel lib source_file_name h None) (\<lambda>(res, found, h').
      if res = DW_DLV_ERROR then Value (res, found, h')
      else if found \<noteq> None then Value (DW_DLV_OK, found, h')
      else Value (DW_DLV_NO_ENTRY, found, h'))"


subsection \<open>A scan over the compilation units\<close>

text \<open>
  The contract the two loops share. \<open>headers nx h ds h'\<close>: from cursor \<open>h\<close> the calls of \<open>nx\<close> hand
  out the units \<open>ds\<close> and then report that there are no more, leaving cursor \<open>h'\<close>.
\<close>

datatype cu_verdict = CuError | CuSkip | CuTake

fun headers :: "('h \<Rightarrow> C_int \<times> 'd option \<times> 'h) \<Rightarrow> 'h \<Rightarrow> 'd list \<Rightarrow> 'h \<Rightarrow> bool" where
  "headers nx h [] h' = (fst (nx h) = DW_DLV_NO_ENTRY \<and> snd (snd (nx h)) = h')"
| "headers nx h (d # ds) h' =
     (fst (nx h) = DW_DLV_OK \<and> fst (snd (nx h)) = Some d \<and> headers nx (snd (snd (nx h))) ds h')"

definition last_of :: "('d \<Rightarrow> bool) \<Rightarrow> 'd option \<Rightarrow> 'd list \<Rightarrow> 'd option" where
  "last_of P acc ds = (if filter P ds = [] then acc else Some (last (filter P ds)))"

lemma last_of_simps [simp]:
  "last_of P acc [] = acc"
  "last_of P acc (d # ds) = last_of P (if P d then Some d else acc) ds"
  "last_of P acc (ds @ ds') = last_of P (last_of P acc ds) ds'"
  by (auto simp: last_of_def)

lemma last_of_mem: "last_of P acc ds = Some d \<Longrightarrow> acc = Some d \<or> d \<in> set ds \<and> P d"
  using last_in_set [of "filter P ds"] by (auto simp: last_of_def split: if_splits)

lemma last_of_None: "last_of P None ds = None \<longleftrightarrow> (\<forall>d\<in>set ds. \<not> P d)"
  by (auto simp: last_of_def filter_empty_conv)

locale cu_scan =
  fixes nx :: "'h \<Rightarrow> C_int \<times> 'd option \<times> 'h"
    and verdict :: "'d option \<Rightarrow> cu_verdict"
    and loop :: "nat \<Rightarrow> 'h \<Rightarrow> 'd option \<Rightarrow> (C_int \<times> 'd option \<times> 'h) run"
  assumes loop_step: "loop (Suc f) h acc =
    (case nx h of (res, d, h') \<Rightarrow>
       if res \<noteq> DW_DLV_OK then Value (res, acc, h')
       else (case verdict d of
           CuError \<Rightarrow> Value (DW_DLV_ERROR, acc, h')
         | CuTake \<Rightarrow> loop f h' d
         | CuSkip \<Rightarrow> loop f h' acc))"
begin

lemma scan_last:
  assumes "headers nx h ds h'" "CuError \<notin> verdict ` Some ` set ds" "length ds < fuel"
  shows "loop fuel h acc = Value (DW_DLV_NO_ENTRY, last_of (\<lambda>d. verdict (Some d) = CuTake) acc ds, h')"
  using assms
proof (induction ds arbitrary: fuel h acc)
  case Nil
  then obtain f where "fuel = Suc f" by (cases fuel) auto
  with Nil show ?case by (cases "nx h") (auto simp: loop_step)
next
  case (Cons d ds)
  then obtain f where f: "fuel = Suc f" by (cases fuel) auto
  from Cons.prems(1) obtain h1 where "nx h = (DW_DLV_OK, Some d, h1)" "headers nx h1 ds h'"
    by (cases "nx h") auto
  with Cons f show ?case by (cases "verdict (Some d)") (auto simp: loop_step image_iff)
qed

lemma scan_error:
  assumes "headers nx h (ds @ d # r) h'" "CuError \<notin> verdict ` Some ` set ds"
    and "verdict (Some d) = CuError" "length ds < fuel"
  shows "\<exists>h1. loop fuel h acc =
    Value (DW_DLV_ERROR, last_of (\<lambda>d. verdict (Some d) = CuTake) acc ds, h1) \<and> headers nx h1 r h'"
  using assms
proof (induction ds arbitrary: fuel h acc)
  case Nil
  then obtain f where f: "fuel = Suc f" by (cases fuel) auto
  from Nil.prems(1) obtain h1 where "nx h = (DW_DLV_OK, Some d, h1)" "headers nx h1 r h'"
    by (cases "nx h") auto
  with Nil f show ?case by (auto simp: loop_step)
next
  case (Cons x ds)
  then obtain f where f: "fuel = Suc f" by (cases fuel) auto
  from Cons.prems(1) obtain h1 where n: "nx h = (DW_DLV_OK, Some x, h1)" "headers nx h1 (ds @ d # r) h'"
    by (cases "nx h") auto
  with Cons.IH [OF n(2)] Cons.prems f show ?case
    by (cases "verdict (Some x)") (auto simp: loop_step image_iff)
qed

end

text \<open>What each loop makes of one unit.\<close>

definition addr_verdict :: "('h, 'd, 'c, 'l, 'z) dwarf_lib_scheme \<Rightarrow> UWORD \<Rightarrow> 'd option \<Rightarrow> cu_verdict" where
  "addr_verdict lib a d = (case die_contains_addr_offset lib a d of (res, contains_addr) \<Rightarrow>
     if res = DW_DLV_ERROR then CuError
     else if res = DW_DLV_OK \<and> contains_addr then CuTake else CuSkip)"

definition file_verdict :: "('h, 'd, 'c, 'l, 'z) dwarf_lib_scheme \<Rightarrow> string \<Rightarrow> 'd option \<Rightarrow> cu_verdict" where
  "file_verdict lib path d =
    (case die_text lib d DW_AT_name of (r1, name) \<Rightarrow> case die_text lib d DW_AT_comp_dir of (r2, dir) \<Rightarrow>
       if r1 \<noteq> DW_DLV_OK then (if r1 = DW_DLV_ERROR then CuError else CuSkip)
       else if r2 \<noteq> DW_DLV_OK then (if r2 = DW_DLV_ERROR then CuError else CuSkip)
       else if (case cu_path dir name of (dir, name) \<Rightarrow> merge_and_check_path path dir name)
       then CuTake else CuSkip)"

interpretation by_addr: cu_scan "next_cu_header lib" "addr_verdict lib a"
    "\<lambda>f h acc. cu_addr_loop f lib a h acc" for lib a
  by unfold_locales (auto simp: addr_verdict_def split: prod.splits)

interpretation by_file: cu_scan "next_cu_header lib" "file_verdict lib path"
    "\<lambda>f h acc. cu_file_loop f lib path h acc" for lib path
  by unfold_locales (auto simp: file_verdict_def split: prod.splits)

text \<open>
  When libdwarf hands out the units \<open>ds\<close> and reading their ranges does not fail,
  \<open>get_cu_from_addr\<close> ends with the last unit that contains the address (\<open>NULL\<close> if there is
  none), the cursor is where libdwarf leaves it after the last unit, and the code is \<open>DW_DLV_NO_ENTRY\<close> in both cases: the
  success code that the header file promises is never returned.
\<close>

theorem get_cu_from_addr_last:
  assumes "headers (next_cu_header lib) h ds h'" "CuError \<notin> addr_verdict lib a ` Some ` set ds"
    and "length ds < fuel"
  shows "get_cu_from_addr fuel lib a h = Value (DW_DLV_NO_ENTRY,
    last_of (\<lambda>d. die_contains_addr_offset lib a (Some d) = (DW_DLV_OK, True)) None ds, h')"
proof -
  have "(addr_verdict lib a (Some d) = CuTake) = (die_contains_addr_offset lib a (Some d) = (DW_DLV_OK, True))" for d
    by (auto simp: addr_verdict_def split: prod.splits if_splits)
  with by_addr.scan_last [OF assms, of None] show ?thesis by (simp add: get_cu_from_addr_def)
qed


text \<open>
  \<open>get_cu_from_file_name\<close> under the same conditions: the last unit whose directory and
  name joined are the given path, with \<open>DW_DLV_OK\<close> exactly when there is one.
\<close>

theorem get_cu_from_file_name_last:
  assumes "headers (next_cu_header lib) h ds h'" "CuError \<notin> file_verdict lib path ` Some ` set ds"
    and "length ds < fuel"
  shows "let d = last_of (\<lambda>d. file_verdict lib path (Some d) = CuTake) None ds in
    get_cu_from_file_name fuel lib path h =
      Value (if d = None then DW_DLV_NO_ENTRY else DW_DLV_OK, d, h')"
  using by_file.scan_last [OF assms, of None] by (simp add: get_cu_from_file_name_def Let_def)

subsection \<open>A forest of DIEs\<close>

text \<open>
  The reference view of the debug information: trees of entries, with the attributes the program
  reads. A handle stands for an entry together with the siblings that follow it; \<open>die_forest\<close>
  states what libdwarf documents of its navigation functions for such handles.
\<close>

record line_row =
  row_addr :: UWORD
  row_no :: UWORD
  row_src :: string

record die_info =
  i_tag :: int
  i_name :: "string option"
  i_range :: "(UWORD \<times> UWORD) option"
  i_dir :: "string option"
  i_lines :: "line_row list"

datatype die_tree = DIE (d_info: die_info) (d_children: "die_tree list")

definition nav :: "('d \<Rightarrow> die_tree list) \<Rightarrow> die_tree list \<Rightarrow> C_int \<times> 'd option \<Rightarrow> bool" where
  "nav repr ts r = (if ts = [] then fst r = DW_DLV_NO_ENTRY
     else fst r = DW_DLV_OK \<and> (case snd r of Some d \<Rightarrow> repr d = ts | None \<Rightarrow> False))"

definition range_ok :: "('h, 'd, 'c, 'l, 'z) dwarf_lib_scheme \<Rightarrow> (UWORD \<times> UWORD) option \<Rightarrow> 'd \<Rightarrow> bool" where
  "range_ok lib r d = (case r of
     None \<Rightarrow> fst (die_lowpc lib (Some d)) = DW_DLV_NO_ENTRY
   | Some (low, high) \<Rightarrow> die_lowpc lib (Some d) = (DW_DLV_OK, low) \<and>
       (case die_highpc lib (Some d) of (res, v, form) \<Rightarrow> res = DW_DLV_OK \<and>
          high = (if form \<noteq> DW_FORM_addr \<and> \<not> addr_form_is_indexed lib form then v + low else v)))"

definition name_ok :: "string option \<Rightarrow> C_int \<times> string \<Rightarrow> bool" where
  "name_ok n r = (case n of None \<Rightarrow> fst r = DW_DLV_NO_ENTRY | Some s \<Rightarrow> r = (DW_DLV_OK, s))"

definition die_forest :: "('h, 'd, 'c, 'l, 'z) dwarf_lib_scheme \<Rightarrow> ('d \<Rightarrow> die_tree list) \<Rightarrow> bool" where
  "die_forest lib repr \<longleftrightarrow> (\<forall>d. repr d \<noteq> []
     \<and> nav repr (d_children (hd (repr d))) (die_child lib (Some d))
     \<and> nav repr (tl (repr d)) (die_sibling lib (Some d))
     \<and> die_tag lib (Some d) = (DW_DLV_OK, i_tag (d_info (hd (repr d))))
     \<and> name_ok (i_name (d_info (hd (repr d)))) (die_name lib (Some d))
     \<and> range_ok lib (i_range (d_info (hd (repr d)))) d)"

lemma navE:
  assumes "nav repr ts (f x)"
  obtains (none) c where "ts = []" "f x = (DW_DLV_NO_ENTRY, c)"
    | (some) d where "ts \<noteq> []" "f x = (DW_DLV_OK, Some d)" "repr d = ts"
  using assms by (cases "f x") (auto simp: nav_def split: if_splits option.splits)

lemma forestD:
  assumes "die_forest lib repr"
  shows "repr d \<noteq> []" "nav repr (d_children (hd (repr d))) (die_child lib (Some d))"
    "nav repr (tl (repr d)) (die_sibling lib (Some d))"
    "die_tag lib (Some d) = (DW_DLV_OK, i_tag (d_info (hd (repr d))))"
    "name_ok (i_name (d_info (hd (repr d)))) (die_name lib (Some d))"
    "range_ok lib (i_range (d_info (hd (repr d)))) d"
  using assms by (auto simp: die_forest_def)

text \<open>The range test on trees.\<close>

definition covers :: "UWORD \<Rightarrow> die_tree \<Rightarrow> bool" where
  "covers a t = (case i_range (d_info t) of None \<Rightarrow> False | Some (low, high) \<Rightarrow> low \<le> a \<and> a < high)"

lemma forest_low_high:
  assumes "die_forest lib repr" "i_range (d_info (hd (repr d))) = r"
  shows "(case r of None \<Rightarrow> get_low_high_pc_from_die lib (Some d) = (DW_DLV_NO_ENTRY, 0, None)
    | Some (low, high) \<Rightarrow> get_low_high_pc_from_die lib (Some d) = (DW_DLV_OK, low, Some high))"
  using forestD(6) [OF assms(1), of d] assms(2)
  by (cases "die_lowpc lib (Some d)"; cases "die_highpc lib (Some d)")
     (auto simp: range_ok_def get_low_high_pc_from_die_def split: option.splits prod.splits)

lemma forest_contains:
  assumes "die_forest lib repr"
  shows "\<exists>res b. die_contains_addr_offset lib a (Some d) = (res, b) \<and> res \<noteq> DW_DLV_ERROR
    \<and> (res = DW_DLV_OK \<and> b \<longleftrightarrow> covers a (hd (repr d)))"
  using forest_low_high [OF assms refl, of d]
  by (auto simp: die_contains_addr_offset_def covers_def not_le not_less split: option.splits)


subsection \<open>Subprograms\<close>

text \<open>
  The recursive search: \<open>sub_prog_loop\<close> is its loop over siblings from \<open>cur_die\<close> on. Both return
  the code and the new \<open>*sub_prog_die\<close>.
\<close>

fun get_sub_prog_die_in_die_from_addr :: "nat \<Rightarrow> ('h, 'd, 'c, 'l, 'z) dwarf_lib_scheme \<Rightarrow> UWORD
      \<Rightarrow> 'd option \<Rightarrow> 'd option \<Rightarrow> (C_int \<times> 'd option) run"
  and sub_prog_loop :: "nat \<Rightarrow> ('h, 'd, 'c, 'l, 'z) dwarf_lib_scheme \<Rightarrow> UWORD
      \<Rightarrow> 'd option \<Rightarrow> 'd option \<Rightarrow> (C_int \<times> 'd option) run" where
  "get_sub_prog_die_in_die_from_addr 0 lib a die sub = NoFuel"
| "get_sub_prog_die_in_die_from_addr (Suc fuel) lib a die sub =
    (case die_child lib die of (res, cur_die) \<Rightarrow>
       if res \<noteq> DW_DLV_OK then Value (res, sub)
       else sub_prog_loop fuel lib a cur_die sub)"
| "sub_prog_loop 0 lib a cur_die sub = NoFuel"
| "sub_prog_loop (Suc fuel) lib a cur_die sub =
    (case die_contains_addr_offset lib a cur_die of (res, contains_addr) \<Rightarrow>
       if res = DW_DLV_ERROR then Value (res, sub)
       else (case (if res = DW_DLV_OK \<and> contains_addr then die_tag lib cur_die else (DW_DLV_NO_ENTRY, 0))
         of (res, dw_tag) \<Rightarrow>
           if res = DW_DLV_ERROR then Value (res, sub)
           else let sub = (if res = DW_DLV_OK \<and> dw_tag = DW_TAG_subprogram then cur_die else sub) in
             case die_child lib cur_die of (res, next_die) \<Rightarrow>
               if res = DW_DLV_ERROR then Value (res, sub)
               else run_bind (if res = DW_DLV_OK
                   then get_sub_prog_die_in_die_from_addr fuel lib a next_die sub
                   else Value (res, sub)) (\<lambda>(res, sub).
                 if res = DW_DLV_ERROR then Value (res, sub)
                 else (case die_sibling lib cur_die of (res, next_die) \<Rightarrow>
                   if res = DW_DLV_ERROR then Value (res, sub)
                   else if res = DW_DLV_NO_ENTRY then Value (res, sub)
                   else sub_prog_loop fuel lib a next_die sub))))"

definition get_sub_prog_die_from_addr :: "nat \<Rightarrow> ('h, 'd, 'c, 'l, 'z) dwarf_lib_scheme \<Rightarrow> UWORD \<Rightarrow> 'h
    \<Rightarrow> (C_int \<times> 'd option \<times> 'h) run" where
  "get_sub_prog_die_from_addr fuel lib a h =
    run_bind (get_cu_from_addr fuel lib a h) (\<lambda>(res, cu_die, h).
      if res = DW_DLV_ERROR then Value (res, None, h)
      else run_bind (get_sub_prog_die_in_die_from_addr fuel lib a cu_die None) (\<lambda>(res, sub).
        Value (res, sub, h)))"

definition get_sub_program_name :: "('h, 'd, 'c, 'l, 'z) dwarf_lib_scheme \<Rightarrow> 'd option \<Rightarrow> C_int \<times> string" where
  "get_sub_program_name lib die = die_name lib die"

text \<open>
  The entries the search looks at, in its order: each entry of a list, then the children of the
  first child of the entry (the recursive call descends from \<open>next_die\<close>, which is itself the
  first child already).
\<close>

fun examined :: "die_tree list \<Rightarrow> die_tree list" where
  "examined [] = []"
| "examined (DIE i [] # ts) = DIE i [] # examined ts"
| "examined (DIE i (DIE j ks # kids) # ts) = DIE i (DIE j ks # kids) # examined ks @ examined ts"

definition sub_hit :: "UWORD \<Rightarrow> die_tree \<Rightarrow> bool" where
  "sub_hit a t = (covers a t \<and> i_tag (d_info t) = DW_TAG_subprogram)"

fun tsize :: "die_tree \<Rightarrow> nat" where
  "tsize (DIE i cs) = Suc (sum_list (map tsize cs))"

abbreviation "fsize ts \<equiv> sum_list (map tsize ts)"

lemma tsize_children: "tsize t = Suc (fsize (d_children t))"
  by (cases t) simp

lemma run_bind_Value [simp]: "run_bind r k = Value y \<longleftrightarrow> (\<exists>x. r = Value x \<and> k x = Value y)"
  by (cases r) auto

lemma examined_Cons: "examined (t # ts) = t #
    (if d_children t = [] then [] else examined (d_children (hd (d_children t)))) @ examined ts"
  by (cases "t # ts" rule: examined.cases) auto

lemma sub_search:
  assumes F: "die_forest lib repr"
  shows "(\<forall>d sub. fsize (d_children (hd (repr d))) + 1 < fuel \<longrightarrow>
      (\<exists>sub'. get_sub_prog_die_in_die_from_addr fuel lib a (Some d) sub = Value (DW_DLV_NO_ENTRY, sub')
        \<and> map_option (hd \<circ> repr) sub' = last_of (sub_hit a) (map_option (hd \<circ> repr) sub)
            (examined (d_children (hd (repr d))))))
    \<and> (\<forall>d sub. fsize (repr d) < fuel \<longrightarrow>
      (\<exists>sub'. sub_prog_loop fuel lib a (Some d) sub = Value (DW_DLV_NO_ENTRY, sub')
        \<and> map_option (hd \<circ> repr) sub' = last_of (sub_hit a) (map_option (hd \<circ> repr) sub)
            (examined (repr d))))"
proof (induction fuel)
  case (Suc fuel)
  note IH1 = Suc.IH [THEN conjunct1, rule_format] and IH2 = Suc.IH [THEN conjunct2, rule_format]
  show ?case
  proof (intro conjI allI impI, goal_cases)
    case (1 d sub)
    from forestD(2) [OF F, of d] show ?case
    proof (cases rule: navE)
      case (some d')
      with 1 IH2 [of d' sub] show ?thesis by (auto simp: comp_def)
    qed simp
  next
    case (2 d sub)
    obtain t ts where d: "repr d = t # ts" using forestD(1) [OF F, of d] by (cases "repr d") auto
    let ?sub = "if sub_hit a t then Some d else sub"
    let ?acc = "map_option (hd \<circ> repr) ?sub"
    let ?kids = "if d_children t = [] then [] else examined (d_children (hd (d_children t)))"
    obtain res b where c: "die_contains_addr_offset lib a (Some d) = (res, b)" "res \<noteq> DW_DLV_ERROR"
      "res = DW_DLV_OK \<and> b \<longleftrightarrow> covers a t"
      using forest_contains [OF F, of a d] d by auto
    have hit: "(case (if res = DW_DLV_OK \<and> b then die_tag lib (Some d) else (DW_DLV_NO_ENTRY, 0)) of
        (res, dw_tag) \<Rightarrow> res \<noteq> DW_DLV_ERROR \<and>
          (if res = DW_DLV_OK \<and> dw_tag = DW_TAG_subprogram then Some d else sub) = ?sub)"
      using c(3) forestD(4) [OF F, of d] d by (auto simp: sub_hit_def)
    have "\<exists>r1 s1. (case die_child lib (Some d) of (res, nd) \<Rightarrow> res \<noteq> DW_DLV_ERROR \<and>
          (if res = DW_DLV_OK then get_sub_prog_die_in_die_from_addr fuel lib a nd ?sub else Value (res, ?sub))
            = Value (r1, s1)) \<and> r1 \<noteq> DW_DLV_ERROR
        \<and> map_option (hd \<circ> repr) s1 = last_of (sub_hit a) ?acc ?kids"
      using forestD(2) [OF F, of d]
    proof (cases rule: navE)
      case none
      then show ?thesis using d by auto
    next
      case (some d')
      then have r: "repr d' = d_children t" "d_children t \<noteq> []" using d by simp_all
      have "fsize (d_children (hd (repr d'))) + 1 < fuel"
        using 2 d r by (cases "d_children t") (auto simp: tsize_children)
      from IH1 [OF this, of ?sub] r some show ?thesis by (auto simp: comp_def)
    qed
    then obtain r1 s1 where k: "case die_child lib (Some d) of (res, nd) \<Rightarrow> res \<noteq> DW_DLV_ERROR \<and>
          (if res = DW_DLV_OK then get_sub_prog_die_in_die_from_addr fuel lib a nd ?sub else Value (res, ?sub))
            = Value (r1, s1)" "r1 \<noteq> DW_DLV_ERROR"
        "map_option (hd \<circ> repr) s1 = last_of (sub_hit a) ?acc ?kids" by (elim exE conjE) (rule that)
    have run: "sub_prog_loop (Suc fuel) lib a (Some d) sub =
        (case die_sibling lib (Some d) of (res, next_die) \<Rightarrow>
           if res = DW_DLV_ERROR then Value (res, s1)
           else if res = DW_DLV_NO_ENTRY then Value (res, s1)
           else sub_prog_loop fuel lib a next_die s1)"
    proof -
      obtain rc nd where ch: "die_child lib (Some d) = (rc, nd)" by (rule prod.exhaust)
      obtain r2 tg where tg: "(if res = DW_DLV_OK \<and> b then die_tag lib (Some d) else (DW_DLV_NO_ENTRY, 0)) = (r2, tg)"
        by (rule prod.exhaust)
      from hit tg have h: "r2 \<noteq> 1" "(if r2 = 0 \<and> tg = DW_TAG_subprogram then Some d else sub) = ?sub" by simp_all
      from k(1) ch have r: "rc \<noteq> 1" "(if rc = 0 then get_sub_prog_die_in_die_from_addr fuel lib a nd ?sub
          else Value (rc, ?sub)) = Value (r1, s1)" by simp_all
      show ?thesis unfolding sub_prog_loop.simps(2) c(1) ch prod.case
        by (simp only: tg prod.case Let_def h r c(2) k(2) if_False run_bind.simps)
    qed
    have acc: "?acc = (if sub_hit a t then Some t else map_option (hd \<circ> repr) sub)" using d by simp
    from forestD(3) [OF F, of d] show ?case
    proof (cases rule: navE)
      case none
      with run k(3) d acc show ?thesis by (auto simp: examined_Cons comp_def)
    next
      case (some d')
      then have "fsize (repr d') < fuel" using 2 d tsize_children [of t] by simp
      from IH2 [OF this, of s1] run some d k(3) acc show ?thesis
        by (auto simp: examined_Cons comp_def)
    qed
  qed
qed simp


text \<open>
  A concrete library over a list of trees, one per compilation unit, on which the theorems are
  evaluated: a handle is an entry with the siblings after it, a cursor the units left and all units.
\<close>

definition handle :: "die_tree list \<Rightarrow> C_int \<times> (die_tree \<times> die_tree list) option" where
  "handle ts = (case ts of [] \<Rightarrow> (DW_DLV_NO_ENTRY, None) | t # r \<Rightarrow> (DW_DLV_OK, Some (t, r)))"

definition text_result :: "string option \<Rightarrow> C_int \<times> string" where
  "text_result n = (case n of None \<Rightarrow> (DW_DLV_NO_ENTRY, []) | Some s \<Rightarrow> (DW_DLV_OK, s))"

definition on_die :: "(die_info \<Rightarrow> C_int \<times> 'r) \<Rightarrow> 'r \<Rightarrow> (die_tree \<times> die_tree list) option \<Rightarrow> C_int \<times> 'r" where
  "on_die f r d = (case d of None \<Rightarrow> (DW_DLV_ERROR, r) | Some (t, _) \<Rightarrow> f (d_info t))"

definition forest_lib :: "(die_tree list \<times> die_tree list, die_tree \<times> die_tree list, line_row list, line_row) dwarf_lib" where
  "forest_lib = \<lparr>
     next_cu_header = (\<lambda>(rest, all). case rest of
         [] \<Rightarrow> (DW_DLV_NO_ENTRY, None, (all, all)) | t # r \<Rightarrow> (DW_DLV_OK, Some (t, []), (r, all))),
     die_lowpc = on_die (\<lambda>i. case i_range i of None \<Rightarrow> (DW_DLV_NO_ENTRY, 0) | Some (l, _) \<Rightarrow> (DW_DLV_OK, l)) 0,
     die_highpc = on_die (\<lambda>i. case i_range i of None \<Rightarrow> (DW_DLV_NO_ENTRY, 0, 0)
         | Some (_, h) \<Rightarrow> (DW_DLV_OK, h, DW_FORM_addr)) (0, 0),
     addr_form_is_indexed = (\<lambda>_. False),
     die_child = (\<lambda>d. case d of None \<Rightarrow> (DW_DLV_ERROR, None) | Some (t, _) \<Rightarrow> handle (d_children t)),
     die_sibling = (\<lambda>d. case d of None \<Rightarrow> (DW_DLV_ERROR, None) | Some (_, r) \<Rightarrow> handle r),
     die_tag = on_die (\<lambda>i. (DW_DLV_OK, i_tag i)) 0,
     die_name = on_die (\<lambda>i. text_result (i_name i)) [],
     die_text = (\<lambda>d at. on_die (\<lambda>i. text_result (if at = DW_AT_name then i_name i else i_dir i)) [] d),
     srclines_b = on_die (\<lambda>i. (DW_DLV_OK, i_lines i, 1)) ([], 0),
     srclines_from_linecontext = (\<lambda>c. (DW_DLV_OK, c)),
     lineaddr = (\<lambda>l. (DW_DLV_OK, row_addr l)),
     lineno = (\<lambda>l. (DW_DLV_OK, row_no l)),
     linesrc = (\<lambda>l. (DW_DLV_OK, row_src l)),
     junk = 0\<rparr>"

definition tree_repr :: "die_tree \<times> die_tree list \<Rightarrow> die_tree list" where
  "tree_repr d = fst d # snd d"

lemma handle_nav: "nav tree_repr ts (handle ts)"
  by (cases ts) (simp_all add: nav_def handle_def tree_repr_def)

lemma forest_lib_forest: "die_forest forest_lib tree_repr"
  by (auto simp: die_forest_def tree_repr_def handle_nav forest_lib_def on_die_def name_ok_def
      range_ok_def text_result_def split: option.splits)

lemma forest_lib_headers:
  "headers (next_cu_header forest_lib) (ts, all) (map (\<lambda>t. (t, [])) ts) (all, all)"
  by (induction ts) (simp_all add: forest_lib_def)

lemma forest_verdict_eq:
  assumes "die_forest lib repr"
  shows "addr_verdict lib a (Some d) = (if covers a (hd (repr d)) then CuTake else CuSkip)"
  using forest_contains [OF assms, of a d] by (auto simp: addr_verdict_def)

lemma forest_verdict:
  assumes "die_forest lib repr"
  shows "CuError \<notin> addr_verdict lib a ` Some ` set ds"
    and "(addr_verdict lib a (Some d) = CuTake) = covers a (hd (repr d))"
  by (auto simp: forest_verdict_eq [OF assms] image_iff split: if_splits)

text \<open>
  Claim C16. \<open>get_sub_prog_die_from_addr\<close> on a forest of DIEs, with fuel above the number of
  units and their entries. It takes the last unit that covers the address and returns the last
  subprogram covering it among the entries that the search examines. The code is not the one that
  the header promises (\<open>DW_DLV_OK\<close> when a subprogram is found, \<open>DW_DLV_NO_ENTRY\<close> when none is): it is
  \<open>DW_DLV_NO_ENTRY\<close> whether one was found or not, and \<open>DW_DLV_ERROR\<close> when no unit covers the
  address, because then the search starts from \<open>NULL\<close>. A caller can tell only from the pointer.
\<close>

theorem get_sub_prog_die_from_addr_last:
  assumes "die_forest lib repr" "headers (next_cu_header lib) h ds h'"
    and "fst (die_child lib None) = DW_DLV_ERROR"
    and "length ds < fuel" "\<forall>d\<in>set ds. fsize (d_children (hd (repr d))) + 1 < fuel"
  shows "let cu = last_of (\<lambda>d. covers a (hd (repr d))) None ds in
    \<exists>sub. get_sub_prog_die_from_addr fuel lib a h =
        Value (if cu = None then DW_DLV_ERROR else DW_DLV_NO_ENTRY, sub, h')
      \<and> map_option (hd \<circ> repr) sub = (case cu of None \<Rightarrow> None
          | Some d \<Rightarrow> last_of (sub_hit a) None (examined (d_children (hd (repr d)))))"
proof -
  let ?cu = "last_of (\<lambda>d. covers a (hd (repr d))) None ds"
  note forest_verdict [OF assms(1)]
  with by_addr.scan_last [OF assms(2) _ assms(4), of a None]
  have cu: "cu_addr_loop fuel lib a h None = Value (DW_DLV_NO_ENTRY, ?cu, h')" by simp
  show ?thesis
  proof (cases ?cu)
    case None
    from assms(4) obtain f where "fuel = Suc f" by (cases fuel) auto
    with None cu assms(3) show ?thesis
      by (auto simp: get_sub_prog_die_from_addr_def get_cu_from_addr_def split: prod.splits)
  next
    case (Some d)
    then have "d \<in> set ds" using last_of_mem [of _ None ds d] by auto
    with assms(5) have "fsize (d_children (hd (repr d))) + 1 < fuel" by blast
    with sub_search [OF assms(1), of fuel a] obtain sub where
      "get_sub_prog_die_in_die_from_addr fuel lib a (Some d) None = Value (DW_DLV_NO_ENTRY, sub)"
      "map_option (hd \<circ> repr) sub = last_of (sub_hit a) None (examined (d_children (hd (repr d))))"
      by fastforce
    with Some cu show ?thesis
      by (simp add: get_sub_prog_die_from_addr_def get_cu_from_addr_def)
  qed
qed


definition mk_die :: "int \<Rightarrow> string \<Rightarrow> UWORD \<Rightarrow> UWORD \<Rightarrow> die_tree list \<Rightarrow> die_tree" where
  "mk_die tag name low high kids = DIE \<lparr>i_tag = tag, i_name = Some name, i_range = Some (low, high),
     i_dir = Some ''/src'', i_lines = []\<rparr> kids"

definition sample_units :: "die_tree list" where
  "sample_units = [mk_die 0x11 ''a.c'' 0x10 0x20 [],
     mk_die 0x11 ''b.c'' 0x20 0x60 [mk_die DW_TAG_subprogram ''f'' 0x20 0x30 [],
       mk_die DW_TAG_subprogram ''g'' 0x30 0x40 [mk_die DW_TAG_formal_parameter ''x'' 0 0 []]]]"

lemma covers_mk_die [simp]: "covers a (mk_die tag name low high kids) = (low \<le> a \<and> a < high)"
  by (simp add: covers_def mk_die_def)

lemma mk_die_parts [simp]:
  "d_children (mk_die tag name low high kids) = kids"
  "i_tag (d_info (mk_die tag name low high kids)) = tag"
  "i_name (d_info (mk_die tag name low high kids)) = Some name"
  "i_range (d_info (mk_die tag name low high kids)) = Some (low, high)"
  by (simp_all add: mk_die_def)

lemma tsize_mk_die [simp]: "tsize (mk_die tag name low high kids) = Suc (fsize kids)"
  by (simp add: tsize_children)

lemma null_child: "fst (die_child forest_lib None) = DW_DLV_ERROR"
  by (simp add: forest_lib_def)

theorem get_sub_prog_die_from_addr_last_witness:
  "\<exists>sub. get_sub_prog_die_from_addr 9 forest_lib 0x31 (sample_units, sample_units) =
       Value (DW_DLV_NO_ENTRY, sub, (sample_units, sample_units))
     \<and> map_option (i_name \<circ> d_info \<circ> hd \<circ> tree_repr) sub = Some (Some ''g'')"
  using get_sub_prog_die_from_addr_last [where a = "0x31" and fuel = 9, OF forest_lib_forest
      forest_lib_headers [of sample_units sample_units] null_child]
  by (auto simp: sample_units_def tree_repr_def examined_Cons sub_hit_def comp_def)

lemma mk_die_contains: "die_contains_addr_offset forest_lib a (Some (mk_die tag name low high kids, r)) =
    (DW_DLV_OK, low \<le> a \<and> a < high)"
  by (auto simp: die_contains_addr_offset_def get_low_high_pc_from_die_def forest_lib_def on_die_def)

theorem get_cu_from_addr_last_witness:
  "get_cu_from_addr 3 forest_lib 0x31 (sample_units, sample_units) =
     Value (DW_DLV_NO_ENTRY, Some (sample_units ! 1, []), (sample_units, sample_units))"
  using get_cu_from_addr_last [where a = "0x31" and fuel = 3,
      OF forest_lib_headers [of sample_units sample_units] forest_verdict(1) [OF forest_lib_forest]]
  by (simp add: sample_units_def mk_die_contains)

theorem get_cu_from_file_name_last_witness:
  "get_cu_from_file_name 3 forest_lib ''/src/b.c'' (sample_units, sample_units) =
     Value (DW_DLV_OK, Some (sample_units ! 1, []), (sample_units, sample_units))"
  using get_cu_from_file_name_last [where path = "''/src/b.c''" and fuel = 3,
      OF forest_lib_headers [of sample_units sample_units]]
  by (simp add: sample_units_def file_verdict_def forest_lib_def on_die_def mk_die_def text_result_def
      cu_path_def merge_and_check_path_def strncmp_eq_def)

text \<open>
  A subprogram one level below the direct children of a unit (as a function in a
  namespace is) is not found: the recursive call skips that level.
\<close>

theorem nested_subprogram_missed:
  assumes "die_forest lib repr" "d_children (hd (repr d)) = [DIE i subs]" "i_tag i \<noteq> DW_TAG_subprogram"
    and "\<forall>s\<in>set subs. d_children s = []" "length subs + 2 < fuel"
  shows "get_sub_prog_die_in_die_from_addr fuel lib a (Some d) None = Value (DW_DLV_NO_ENTRY, None)"
proof -
  have leaf: "tsize s = 1" if "s \<in> set subs" for s using that assms(4) by (simp add: tsize_children)
  then have "fsize subs = length subs" by (induction subs) simp_all
  then have "fsize (d_children (hd (repr d))) + 1 < fuel" using assms(2,5) by simp
  with sub_search [OF assms(1), of fuel a] obtain sub where s:
    "get_sub_prog_die_in_die_from_addr fuel lib a (Some d) None = Value (DW_DLV_NO_ENTRY, sub)"
    "map_option (hd \<circ> repr) sub = last_of (sub_hit a) None (examined [DIE i subs])"
    using assms(2) by fastforce
  have "examined [DIE i subs] = [DIE i subs]" using assms(4) by (cases subs) (auto simp: examined_Cons)
  with s assms(3) show ?thesis by (simp add: sub_hit_def)
qed

theorem nested_subprogram_missed_witness:
  "get_sub_prog_die_in_die_from_addr 9 forest_lib 0x35
     (Some (mk_die 0x11 ''c.cpp'' 0x20 0x60 [DIE (d_info (mk_die 0x39 ''ns'' 0x20 0x60 []))
       [mk_die DW_TAG_subprogram ''f'' 0x30 0x40 []]], [])) None = Value (DW_DLV_NO_ENTRY, None)"
  by (rule nested_subprogram_missed [OF forest_lib_forest, where i = "d_info (mk_die 0x39 ''ns'' 0x20 0x60 [])"
        and subs = "[mk_die DW_TAG_subprogram ''f'' 0x30 0x40 []]"]) (simp_all add: tree_repr_def)

end
