(* ===== verification/Die_Search.thy ===== *)
theory Die_Search
  imports Dwarf_Info
begin

section \<open>Parameters, members and local variables (\<^verbatim>\<open>debugger/dwarf_info.c\<close>)\<close>

text \<open>
  The two iterators over the children of a DIE with a given tag, and the recursive search for a
  variable by name. Here the handles that are given back to libdwarf matter, so every function also
  returns the list of them: a handle that is used or given back again afterwards is dangling.
\<close>

subsection \<open>The iterators\<close>

text \<open>
  \<open>next_die\<close> keeps the handle of the sibling fetched last when the next fetch fails. The result
  is the code, the new \<open>*fparam\<close> and the freed handles.
\<close>

fun formal_params_loop :: "nat \<Rightarrow> ('h, 'd, 'c, 'l, 'z) dwarf_lib_scheme \<Rightarrow> 'd option \<Rightarrow> 'd option
    \<Rightarrow> 'd option list \<Rightarrow> (C_int \<times> 'd option \<times> 'd option list) run" where
  "formal_params_loop 0 lib fparam next_die freed = NoFuel"
| "formal_params_loop (Suc fuel) lib fparam next_die freed =
    (case die_tag lib fparam of (res, dw_tag) \<Rightarrow>
       if res \<noteq> DW_DLV_OK then Value (res, fparam, freed)
       else if dw_tag = DW_TAG_formal_parameter then Value (DW_DLV_OK, fparam, freed)
       else (case die_sibling lib fparam of (res, d) \<Rightarrow>
         let next_die = (if res = DW_DLV_OK then d else next_die); freed = freed @ [fparam] in
         if res \<noteq> 0 then Value (res, next_die, freed)
         else formal_params_loop fuel lib next_die next_die freed))"

definition get_formal_params :: "nat \<Rightarrow> ('h, 'd, 'c, 'l, 'z) dwarf_lib_scheme \<Rightarrow> 'd option \<Rightarrow> 'd option
    \<Rightarrow> (C_int \<times> 'd option \<times> 'd option list) run" where
  "get_formal_params fuel lib sub_prog_die fparam =
    (if fparam = None then
       (case die_child lib sub_prog_die of (res, d) \<Rightarrow>
          if res \<noteq> DW_DLV_OK then Value (res, None, [])
          else formal_params_loop fuel lib d None [])
     else
       (case die_sibling lib fparam of (res, d) \<Rightarrow>
          let next_die = (if res = DW_DLV_OK then d else None); freed = [fparam] in
          if res \<noteq> 0 then Value (res, next_die, freed)
          else formal_params_loop fuel lib next_die next_die freed))"

fun data_members_loop :: "nat \<Rightarrow> ('h, 'd, 'c, 'l, 'z) dwarf_lib_scheme \<Rightarrow> 'd option \<Rightarrow> 'd option
    \<Rightarrow> 'd option list \<Rightarrow> (C_int \<times> 'd option \<times> 'd option list) run" where
  "data_members_loop 0 lib fparam next_die freed = NoFuel"
| "data_members_loop (Suc fuel) lib fparam next_die freed =
    (case die_tag lib fparam of (res, dw_tag) \<Rightarrow>
       if res \<noteq> DW_DLV_OK then Value (res, fparam, freed)
       else if dw_tag = DW_TAG_member then Value (DW_DLV_OK, fparam, freed)
       else (case die_sibling lib fparam of (res, d) \<Rightarrow>
         let next_die = (if res = DW_DLV_OK then d else next_die); freed = freed @ [fparam] in
         if res \<noteq> 0 then Value (res, next_die, freed)
         else data_members_loop fuel lib next_die next_die freed))"

definition get_data_members :: "nat \<Rightarrow> ('h, 'd, 'c, 'l, 'z) dwarf_lib_scheme \<Rightarrow> 'd option \<Rightarrow> 'd option
    \<Rightarrow> (C_int \<times> 'd option \<times> 'd option list) run" where
  "get_data_members fuel lib struct_die fparam =
    (if fparam = None then
       (case die_child lib struct_die of (res, d) \<Rightarrow>
          if res \<noteq> DW_DLV_OK then Value (res, None, [])
          else data_members_loop fuel lib d None [])
     else
       (case die_sibling lib fparam of (res, d) \<Rightarrow>
          let next_die = (if res = DW_DLV_OK then d else None); freed = [fparam] in
          if res \<noteq> 0 then Value (res, next_die, freed)
          else data_members_loop fuel lib next_die next_die freed))"

text \<open>
  The callers' loop: repeated calls until the code is not \<open>DW_DLV_OK\<close>. It collects the handles
  the calls returned, and ends with the last code, the last \<open>*fparam\<close> and the handles freed by
  the last call.
\<close>

fun iterate_dies :: "nat \<Rightarrow> ('d option \<Rightarrow> (C_int \<times> 'd option \<times> 'd option list) run) \<Rightarrow> 'd option
    \<Rightarrow> ('d list \<times> C_int \<times> 'd option \<times> 'd option list) run" where
  "iterate_dies 0 get fparam = NoFuel"
| "iterate_dies (Suc fuel) get fparam = run_bind (get fparam) (\<lambda>(res, fparam, freed).
     if res \<noteq> DW_DLV_OK then Value ([], res, fparam, freed)
     else run_bind (iterate_dies fuel get fparam) (\<lambda>(ds, r).
       Value ((case fparam of None \<Rightarrow> ds | Some d \<Rightarrow> d # ds), r)))"

text \<open>
  Children for which an iteration over one tag ends with a handle that the last call has given back:
  at least two of them, and the last one of another tag.
\<close>

definition ends_dangling :: "int \<Rightarrow> die_tree list \<Rightarrow> bool" where
  "ends_dangling tag kids \<longleftrightarrow> 1 < length kids \<and> i_tag (d_info (last kids)) \<noteq> tag"

subsection \<open>The contract of the iterators\<close>

locale tag_iterator =
  fixes tag :: int
    and lib :: "('h, 'd, 'c, 'l, 'z) dwarf_lib_scheme"
    and loop :: "nat \<Rightarrow> 'd option \<Rightarrow> 'd option \<Rightarrow> 'd option list \<Rightarrow> (C_int \<times> 'd option \<times> 'd option list) run"
    and get :: "nat \<Rightarrow> 'd option \<Rightarrow> 'd option \<Rightarrow> (C_int \<times> 'd option \<times> 'd option list) run"
  assumes loop_step: "loop (Suc fuel) fparam next_die freed =
      (case die_tag lib fparam of (res, dw_tag) \<Rightarrow>
         if res \<noteq> DW_DLV_OK then Value (res, fparam, freed)
         else if dw_tag = tag then Value (DW_DLV_OK, fparam, freed)
         else (case die_sibling lib fparam of (res, d) \<Rightarrow>
           if res \<noteq> 0 then Value (res, next_die, freed @ [fparam])
           else loop fuel d d (freed @ [fparam])))"
    and get_first: "get fuel die None = (case die_child lib die of (res, d) \<Rightarrow>
       if res \<noteq> DW_DLV_OK then Value (res, None, []) else loop fuel d None [])"
    and get_next: "get fuel die (Some p) = (case die_sibling lib (Some p) of (res, d) \<Rightarrow>
       if res \<noteq> 0 then Value (res, None, [Some p]) else loop fuel d d [Some p])"
begin

abbreviation "has_tag t \<equiv> i_tag (d_info t) = tag"

lemma loop_run:
  assumes F: "die_forest lib repr" and "length (repr d) \<le> fuel"
  shows "if \<exists>t\<in>set (repr d). has_tag t
    then \<exists>d' fr. loop fuel (Some d) nd freed = Value (DW_DLV_OK, Some d', fr)
       \<and> repr d' = dropWhile (\<lambda>t. \<not> has_tag t) (repr d)
    else if tl (repr d) = []
    then loop fuel (Some d) nd freed = Value (DW_DLV_NO_ENTRY, nd, freed @ [Some d])
    else \<exists>d' fr. loop fuel (Some d) nd freed = Value (DW_DLV_NO_ENTRY, Some d', fr) \<and> Some d' \<in> set fr"
  using assms(2)
proof (induction fuel arbitrary: d nd freed)
  case 0
  with forestD(1) [OF F] show ?case by simp
next
  case (Suc fuel)
  obtain t ts where d: "repr d = t # ts" using forestD(1) [OF F, of d] by (cases "repr d") auto
  note tg = forestD(4) [OF F, of d]
  show ?case
  proof (cases "has_tag t")
    case True
    with d tg show ?thesis by (auto simp: loop_step)
  next
    case nt: False
    from forestD(3) [OF F, of d] show ?thesis
    proof (cases rule: navE)
      case (none c)
      with nt d tg show ?thesis by (simp add: loop_step)
    next
      case (some d')
      then have r: "repr d' = ts" "ts \<noteq> []" using d by simp_all
      have run: "loop (Suc fuel) (Some d) nd freed = loop fuel (Some d') (Some d') (freed @ [Some d])"
        using nt d tg some by (simp add: loop_step)
      from Suc.IH [of d' "Some d'" "freed @ [Some d]"] Suc.prems d r
      show ?thesis unfolding run by (cases "\<exists>t\<in>set ts. has_tag t") (use nt in \<open>auto split: if_splits\<close>)
    qed
  qed
qed

text \<open>The next matching entry of a list of siblings is where the iteration goes on.\<close>

lemma get_after:
  assumes "die_forest lib repr" "length (repr p) \<le> fuel"
  shows "if \<exists>t\<in>set (tl (repr p)). has_tag t
    then \<exists>d' fr. get fuel die (Some p) = Value (DW_DLV_OK, Some d', fr)
       \<and> repr d' = dropWhile (\<lambda>t. \<not> has_tag t) (tl (repr p))
    else \<exists>r. get fuel die (Some p) = Value (DW_DLV_NO_ENTRY, r)
       \<and> (tl (repr p) \<noteq> [] \<longrightarrow> (\<exists>d'. fst r = Some d' \<and> Some d' \<in> set (snd r)))"
proof -
  from forestD(3) [OF assms(1), of p] show ?thesis
  proof (cases rule: navE)
    case (none c)
    then show ?thesis by (simp add: get_next)
  next
    case (some d)
    then have "length (repr d) \<le> fuel" "repr d = tl (repr p)" "get fuel die (Some p) = loop fuel (Some d) (Some d) [Some p]"
      using assms(2) by (simp_all add: get_next)
    with loop_run [OF assms(1), of d fuel "Some d" "[Some p]"] show ?thesis
      by (cases "\<exists>t\<in>set (repr d). has_tag t"; cases "tl (repr d) = []") auto
  qed
qed

text \<open>The entries that a call looks at: all children at first, then the siblings behind the last one.\<close>

lemma get_any:
  assumes "die_forest lib repr"
    and "ss = (case prev of None \<Rightarrow> d_children (hd (repr die)) | Some p \<Rightarrow> tl (repr p))" "length ss < fuel"
  shows "if \<exists>t\<in>set ss. has_tag t
    then \<exists>d fr. get fuel (Some die) prev = Value (DW_DLV_OK, Some d, fr) \<and> repr d = dropWhile (\<lambda>t. \<not> has_tag t) ss
    else \<exists>r. get fuel (Some die) prev = Value (DW_DLV_NO_ENTRY, r)"
proof (cases prev)
  case None
  from forestD(2) [OF assms(1), of die] show ?thesis
  proof (cases rule: navE)
    case (none c)
    with None assms(2) show ?thesis by (simp add: get_first)
  next
    case (some d)
    with loop_run [OF assms(1), of d fuel None "[]"] None assms(2,3) show ?thesis
      by (cases "\<exists>t\<in>set ss. has_tag t"; cases "tl ss = []") (auto simp: get_first)
  qed
next
  case (Some p)
  then have "length (repr p) \<le> fuel" using assms(2,3) by simp
  with get_after [OF assms(1), of p fuel "Some die"] Some assms(2) show ?thesis
    by (cases "\<exists>t\<in>set ss. has_tag t") auto
qed

text \<open>
  The last call: the handle that it leaves is dangling when there was an entry behind the one it
  started with.
\<close>

lemma get_end:
  assumes "die_forest lib repr"
    and "ss = (case prev of None \<Rightarrow> d_children (hd (repr die)) | Some p \<Rightarrow> tl (repr p))" "length ss < fuel"
    and "\<forall>t\<in>set ss. \<not> has_tag t"
  shows "\<exists>fp fr. get fuel (Some die) prev = Value (DW_DLV_NO_ENTRY, fp, fr)
    \<and> (fp \<noteq> None \<and> fp \<in> set fr \<longleftrightarrow> (if prev = None then 1 < length ss else ss \<noteq> []))"
proof (cases prev)
  case None
  from forestD(2) [OF assms(1), of die] show ?thesis
  proof (cases rule: navE)
    case (none c)
    with None assms(2) show ?thesis by (simp add: get_first)
  next
    case (some d)
    then have r: "repr d = ss" "ss \<noteq> []" "get fuel (Some die) prev = loop fuel (Some d) None []"
      using None assms(2) by (simp_all add: get_first)
    then obtain t ts where "ss = t # ts" by (cases ss) auto
    with loop_run [OF assms(1), of d fuel None "[]"] r None assms(3,4) show ?thesis
      by (cases "ts = []") (auto split: if_splits)
  qed
next
  case (Some p)
  then have l: "length (repr p) \<le> fuel" using assms(2,3) by simp
  show ?thesis
  proof (cases "ss = []")
    case True
    with forestD(3) [OF assms(1), of p] Some assms(2) show ?thesis by (auto elim: navE simp: get_next)
  next
    case False
    with get_after [OF assms(1) l, of "Some die"] Some assms(2,4) show ?thesis by fastforce
  qed
qed

lemma filter_dropWhile: "filter P (dropWhile (\<lambda>x. \<not> P x) xs) = filter P xs"
  by (induction xs) auto

lemma filter_tl_dropWhile:
  "dropWhile (\<lambda>x. \<not> P x) xs = y # ys \<Longrightarrow> filter P xs = y # filter P ys"
  using filter_dropWhile [of P xs] hd_dropWhile [of "\<lambda>x. \<not> P x" xs] by auto

lemma iterate_after:
  assumes F: "die_forest lib repr" and "length (repr p) \<le> fuel" "length (filter has_tag (tl (repr p))) < calls"
  shows "\<exists>ds r. iterate_dies calls (get fuel die) (Some p) = Value (ds, DW_DLV_NO_ENTRY, r)
    \<and> map (hd \<circ> repr) ds = filter has_tag (tl (repr p))"
  using assms(2,3)
proof (induction calls arbitrary: p)
  case (Suc calls)
  show ?case
  proof (cases "\<exists>t\<in>set (tl (repr p)). has_tag t")
    case False
    with get_after [OF F Suc.prems(1), of die] obtain a b where
      "get fuel die (Some p) = Value (DW_DLV_NO_ENTRY, a, b)" by auto
    then have "iterate_dies (Suc calls) (get fuel die) (Some p) = Value ([], DW_DLV_NO_ENTRY, a, b)" by simp
    then show ?thesis by (intro exI conjI, assumption) (use False in \<open>auto simp: filter_empty_conv\<close>)
  next
    case True
    with get_after [OF F Suc.prems(1), of die] obtain d fr where
      g: "get fuel die (Some p) = Value (DW_DLV_OK, Some d, fr)"
        "repr d = dropWhile (\<lambda>t. \<not> has_tag t) (tl (repr p))" by auto
    obtain t ts where d: "repr d = t # ts" using forestD(1) [OF F, of d] by (cases "repr d") auto
    have f: "filter has_tag (tl (repr p)) = t # filter has_tag ts"
      using filter_tl_dropWhile [of has_tag "tl (repr p)" t ts] g(2) d by simp
    have "length (repr d) \<le> length (repr p)"
      unfolding g(2) by (rule order_trans [OF length_dropWhile_le]) simp
    then have "length (repr d) \<le> fuel" "length (filter has_tag (tl (repr d))) < calls"
      using Suc.prems f d by simp_all
    from Suc.IH [OF this] obtain ds r where
      "iterate_dies calls (get fuel die) (Some d) = Value (ds, DW_DLV_NO_ENTRY, r)"
      "map (hd \<circ> repr) ds = filter has_tag ts" unfolding d list.sel by blast
    with g(1) f d show ?thesis by (auto simp: comp_def)
  qed
qed simp

lemma iterate_all:
  assumes F: "die_forest lib repr" and "kids = d_children (hd (repr p))"
    and "length kids < fuel" "length (filter has_tag kids) < calls"
  shows "\<exists>ds r. iterate_dies calls (get fuel (Some p)) None = Value (ds, DW_DLV_NO_ENTRY, r)
    \<and> map (hd \<circ> repr) ds = filter has_tag kids"
proof -
  obtain calls' where c: "calls = Suc calls'" using assms(4) by (cases calls) auto
  from forestD(2) [OF F, of p] show ?thesis
  proof (cases rule: navE)
    case (none x)
    with assms(2) c show ?thesis by (simp add: get_first)
  next
    case (some d)
    show ?thesis
    proof (cases "\<exists>t\<in>set kids. has_tag t")
      case False
      with loop_run [OF F, of d fuel None "[]"] assms some c show ?thesis
        by (fastforce simp: get_first filter_empty_conv split: if_splits)
    next
      case True
      with loop_run [OF F, of d fuel None "[]"] assms some obtain d' fr where
        g: "get fuel (Some p) None = Value (DW_DLV_OK, Some d', fr)"
          "repr d' = dropWhile (\<lambda>t. \<not> has_tag t) kids" by (auto simp: get_first)
      obtain t ts where d: "repr d' = t # ts" using forestD(1) [OF F, of d'] by (cases "repr d'") auto
      have f: "filter has_tag kids = t # filter has_tag ts"
        using filter_tl_dropWhile [of has_tag kids t ts] g(2) d by simp
      have "length (repr d') \<le> length kids" unfolding g(2) by (rule length_dropWhile_le)
      then have "length (repr d') \<le> fuel" "length (filter has_tag (tl (repr d'))) < calls'"
        using assms(3,4) f d c by simp_all
      from iterate_after [OF F this, of "Some p"] obtain ds r where
        "iterate_dies calls' (get fuel (Some p)) (Some d') = Value (ds, DW_DLV_NO_ENTRY, r)"
        "map (hd \<circ> repr) ds = filter has_tag ts" unfolding d list.sel by blast
      with g(1) f d c show ?thesis by (auto simp: comp_def)
    qed
  qed
qed

end

interpretation params: tag_iterator DW_TAG_formal_parameter lib "\<lambda>f. formal_params_loop f lib"
    "\<lambda>f. get_formal_params f lib" for lib
  by unfold_locales (auto simp: get_formal_params_def Let_def split: prod.splits)

interpretation members: tag_iterator DW_TAG_member lib "\<lambda>f. data_members_loop f lib"
    "\<lambda>f. get_data_members f lib" for lib
  by unfold_locales (auto simp: get_data_members_def Let_def split: prod.splits)


text \<open>
  Claim C31. A caller that calls \<open>get_formal_params\<close> until it fails gets exactly the formal
  parameters among the children of the subprogram, in order, and the final code is
  \<open>DW_DLV_NO_ENTRY\<close>; one unit of fuel per child is enough.
\<close>

theorem formal_params_enumerated:
  assumes "die_forest lib repr" "kids = d_children (hd (repr p))" "length kids < fuel"
  shows "\<exists>ds r. iterate_dies fuel (get_formal_params fuel lib (Some p)) None = Value (ds, DW_DLV_NO_ENTRY, r)
    \<and> map (hd \<circ> repr) ds = filter (\<lambda>t. i_tag (d_info t) = DW_TAG_formal_parameter) kids"
  by (rule params.iterate_all [OF assms le_less_trans [OF length_filter_le assms(3)]])

theorem formal_params_enumerated_witness:
  "\<exists>ds r. iterate_dies 4 (get_formal_params 4 forest_lib (Some (mk_die DW_TAG_subprogram ''f'' 0 9
       [mk_die DW_TAG_formal_parameter ''x'' 0 0 [], mk_die DW_TAG_variable ''v'' 0 0 [],
        mk_die DW_TAG_formal_parameter ''y'' 0 0 []], []))) None = Value (ds, DW_DLV_NO_ENTRY, r)
     \<and> map (i_name \<circ> d_info \<circ> hd \<circ> tree_repr) ds = [Some ''x'', Some ''y'']"
proof -
  let ?kids = "[mk_die DW_TAG_formal_parameter ''x'' 0 0 [], mk_die DW_TAG_variable ''v'' 0 0 [],
        mk_die DW_TAG_formal_parameter ''y'' 0 0 []]"
  let ?p = "(mk_die DW_TAG_subprogram ''f'' 0 9 ?kids, [])"
  obtain ds r where "iterate_dies 4 (get_formal_params 4 forest_lib (Some ?p)) None = Value (ds, DW_DLV_NO_ENTRY, r)"
    and ds: "map (hd \<circ> tree_repr) ds = filter (\<lambda>t. i_tag (d_info t) = DW_TAG_formal_parameter) ?kids"
    using formal_params_enumerated [OF forest_lib_forest, where p = ?p and kids = ?kids and fuel = 4]
    by (auto simp: tree_repr_def)
  moreover have "map (i_name \<circ> d_info \<circ> hd \<circ> tree_repr) ds = map (i_name \<circ> d_info) (map (hd \<circ> tree_repr) ds)"
    by simp
  ultimately show ?thesis by (auto simp: ds)
qed

text \<open>
  Likewise \<open>get_data_members\<close> enumerates the members of a structure type.
\<close>

theorem data_members_enumerated:
  assumes "die_forest lib repr" "kids = d_children (hd (repr p))" "length kids < fuel"
  shows "\<exists>ds r. iterate_dies fuel (get_data_members fuel lib (Some p)) None = Value (ds, DW_DLV_NO_ENTRY, r)
    \<and> map (hd \<circ> repr) ds = filter (\<lambda>t. i_tag (d_info t) = DW_TAG_member) kids"
  by (rule members.iterate_all [OF assms le_less_trans [OF length_filter_le assms(3)]])

theorem data_members_enumerated_witness:
  "\<exists>ds r. iterate_dies 2 (get_data_members 2 forest_lib (Some (mk_die 0x13 ''s'' 0 9
       [mk_die DW_TAG_member ''m'' 0 0 []], []))) None = Value (ds, DW_DLV_NO_ENTRY, r)
     \<and> length ds = 1"
proof -
  let ?kids = "[mk_die DW_TAG_member ''m'' 0 0 []]"
  let ?p = "(mk_die 0x13 ''s'' 0 9 ?kids, [])"
  obtain ds r where "iterate_dies 2 (get_data_members 2 forest_lib (Some ?p)) None = Value (ds, DW_DLV_NO_ENTRY, r)"
    and ds: "map (hd \<circ> tree_repr) ds = ?kids"
    using data_members_enumerated [OF forest_lib_forest, where p = ?p and kids = ?kids and fuel = 2]
    by (auto simp: tree_repr_def)
  moreover have "length ds = 1" using arg_cong [OF ds, of length] by simp
  ultimately show ?thesis by blast
qed

text \<open>
  When the parameter \<open>p\<close> is followed by other entries but by no further parameter, the
  call that ends the iteration leaves a handle in \<open>*fparam\<close> that it has just given back;
  \<open>handle_param_var\<close> then frees it a second time.
\<close>

theorem formal_params_dangling:
  assumes "die_forest lib repr" "length (repr p) \<le> fuel" "tl (repr p) \<noteq> []"
    and "filter (\<lambda>t. i_tag (d_info t) = DW_TAG_formal_parameter) (tl (repr p)) = []"
  shows "\<exists>d freed. get_formal_params fuel lib die (Some p) = Value (DW_DLV_NO_ENTRY, Some d, freed)
    \<and> Some d \<in> set freed"
  using params.get_after [OF assms(1,2), of die] assms(3,4) by (auto simp: filter_empty_conv split: if_splits)

theorem formal_params_dangling_witness:
  "\<exists>d freed. get_formal_params 4 forest_lib None
     (Some (mk_die DW_TAG_formal_parameter ''x'' 0 0 [], [mk_die DW_TAG_variable ''v'' 0 0 []]))
     = Value (DW_DLV_NO_ENTRY, Some d, freed) \<and> Some d \<in> set freed"
  by (rule formal_params_dangling [OF forest_lib_forest]) (simp_all add: tree_repr_def)

subsection \<open>A local variable by name\<close>

text \<open>
  \<open>local_var_siblings\<close> is the loop over the siblings of \<open>child_die\<close> with what follows it. The
  result is the code, \<open>*var_die\<close> and the freed handles. An entry without a name, or a \<open>NULL\<close>
  \<open>var_name\<close>, makes \<open>strcmp\<close> read an invalid pointer.
\<close>

definition local_var_end :: "C_int \<Rightarrow> 'd option \<Rightarrow> 'd option \<Rightarrow> 'd option list
    \<Rightarrow> (C_int \<times> 'd option \<times> 'd option list) run" where
  "local_var_end res child_die var_die freed =
    Value (if res = DW_DLV_ERROR then 1 else 0, var_die,
      if child_die \<noteq> var_die then freed @ [child_die] else freed)"

fun get_local_var_from_name :: "nat \<Rightarrow> ('h, 'd, 'c, 'l, 'z) dwarf_lib_scheme \<Rightarrow> string option \<Rightarrow> UWORD
      \<Rightarrow> 'd option \<Rightarrow> (C_int \<times> 'd option \<times> 'd option list) run"
  and local_var_siblings :: "nat \<Rightarrow> ('h, 'd, 'c, 'l, 'z) dwarf_lib_scheme \<Rightarrow> string option \<Rightarrow> UWORD
      \<Rightarrow> 'd option \<Rightarrow> 'd option list \<Rightarrow> (C_int \<times> 'd option \<times> 'd option list) run" where
  "get_local_var_from_name 0 lib var_name pc block_die = NoFuel"
| "get_local_var_from_name (Suc fuel) lib var_name pc block_die =
    (case die_tag lib block_die of (res, block_tag) \<Rightarrow>
       if res \<noteq> DW_DLV_OK then Value (res, None, [])
       else if block_tag = DW_TAG_variable \<or> block_tag = DW_TAG_formal_parameter then
         (case die_name lib block_die of (res, nm) \<Rightarrow>
            if res = DW_DLV_ERROR then Value (res, None, [])
            else if var_name = None \<or> res \<noteq> DW_DLV_OK then Crash_run
            else Value (0, if var_name = Some nm then block_die else None, []))
       else if block_tag = DW_TAG_lexical_block \<or> block_tag = DW_TAG_subprogram
            \<or> block_tag = DW_TAG_inlined_subroutine then
         (case get_low_high_pc_from_die lib block_die of (res, b_low, b_high) \<Rightarrow>
            if res \<noteq> DW_DLV_OK then Value (res, None, [])
            else if b_low > pc \<or> (case b_high of None \<Rightarrow> False | Some b_high \<Rightarrow> b_high < pc)
            then Value (0, None, [])
            else (case die_child lib block_die of (res, child_die) \<Rightarrow>
              if res = DW_DLV_ERROR then Value (1, None, [])
              else if res = DW_DLV_NO_ENTRY then Value (0, None, [])
              else run_bind (get_local_var_from_name fuel lib var_name pc child_die)
                (\<lambda>(res, var_die, freed).
                  if res \<noteq> DW_DLV_OK then Value (res, var_die, freed @ [child_die])
                  else if var_die \<noteq> None then Value (0, var_die, freed @ [child_die])
                  else local_var_siblings fuel lib var_name pc child_die freed)))
       else Value (0, None, []))"
| "local_var_siblings 0 lib var_name pc child_die freed = NoFuel"
| "local_var_siblings (Suc fuel) lib var_name pc child_die freed =
    (case die_sibling lib child_die of (res, next_die) \<Rightarrow>
       if res \<noteq> DW_DLV_OK then local_var_end res child_die None freed
       else run_bind (get_local_var_from_name fuel lib var_name pc next_die) (\<lambda>(res, var_die, freed').
         let freed = freed @ freed' @ [child_die] in
         if res \<noteq> DW_DLV_OK \<or> var_die \<noteq> None then local_var_end res next_die var_die freed
         else local_var_siblings fuel lib var_name pc next_die freed))"


text \<open>
  The reference: the first entry with the name in a walk through the blocks that cover the
  address, both ends included. \<open>locals_ok\<close>: variables and parameters have names and blocks ranges.
\<close>

definition is_var_tag :: "int \<Rightarrow> bool" where
  "is_var_tag tag = (tag = DW_TAG_variable \<or> tag = DW_TAG_formal_parameter)"

definition is_block_tag :: "int \<Rightarrow> bool" where
  "is_block_tag tag = (tag = DW_TAG_lexical_block \<or> tag = DW_TAG_subprogram \<or> tag = DW_TAG_inlined_subroutine)"

definition in_block :: "UWORD \<Rightarrow> die_info \<Rightarrow> bool" where
  "in_block pc i = (is_block_tag (i_tag i) \<and>
     (case i_range i of None \<Rightarrow> False | Some (low, high) \<Rightarrow> low \<le> pc \<and> pc \<le> high))"

fun find_local :: "string \<Rightarrow> UWORD \<Rightarrow> die_tree \<Rightarrow> die_tree option"
  and find_locals :: "string \<Rightarrow> UWORD \<Rightarrow> die_tree list \<Rightarrow> die_tree option" where
  "find_local nm pc (DIE i ts) =
     (if is_var_tag (i_tag i) then (if i_name i = Some nm then Some (DIE i ts) else None)
      else if in_block pc i then find_locals nm pc ts else None)"
| "find_locals nm pc [] = None"
| "find_locals nm pc (t # ts) =
     (case find_local nm pc t of None \<Rightarrow> find_locals nm pc ts | Some x \<Rightarrow> Some x)"

fun locals_ok :: "die_tree \<Rightarrow> bool" where
  "locals_ok (DIE i ts) = ((is_var_tag (i_tag i) \<longrightarrow> i_name i \<noteq> None) \<and>
     (is_block_tag (i_tag i) \<longrightarrow> i_range i \<noteq> None) \<and> (\<forall>t\<in>set ts. locals_ok t))"

text \<open>One call on an entry of the forest, by its tag.\<close>

lemma local_var_leaf:
  assumes "die_forest lib repr" "locals_ok (hd (repr d))" "i = d_info (hd (repr d))"
    and "\<not> in_block pc i"
  shows "get_local_var_from_name (Suc fuel) lib (Some nm) pc (Some d) =
    Value (0, if is_var_tag (i_tag i) \<and> i_name i = Some nm then Some d else None, [])"
proof -
  obtain ts where t: "hd (repr d) = DIE i ts" using assms(3) by (cases "hd (repr d)") auto
  note f = forestD(4,5) [OF assms(1), of d] forest_low_high [OF assms(1) refl, of d]
  show ?thesis
  proof (cases "is_var_tag (i_tag i)")
    case True
    with assms(2) t obtain s where "i_name i = Some s" by auto
    with f True t show ?thesis by (auto simp: is_var_tag_def name_ok_def)
  next
    case False
    show ?thesis
    proof (cases "is_block_tag (i_tag i)")
      case True
      with assms(2) t obtain low high where "i_range i = Some (low, high)" by auto
      with f True False t assms(4) show ?thesis
        by (auto simp: is_var_tag_def is_block_tag_def in_block_def not_le)
    next
      case nb: False
      with f False t show ?thesis by (simp add: is_var_tag_def is_block_tag_def)
    qed
  qed
qed

lemma local_var_block:
  assumes "die_forest lib repr" "i = d_info (hd (repr d))" "in_block pc i"
  shows "get_local_var_from_name (Suc fuel) lib (Some nm) pc (Some d) =
    (case die_child lib (Some d) of (res, child_die) \<Rightarrow>
       if res = DW_DLV_ERROR then Value (1, None, [])
       else if res = DW_DLV_NO_ENTRY then Value (0, None, [])
       else run_bind (get_local_var_from_name fuel lib (Some nm) pc child_die)
         (\<lambda>(res, var_die, freed).
           if res \<noteq> DW_DLV_OK then Value (res, var_die, freed @ [child_die])
           else if var_die \<noteq> None then Value (0, var_die, freed @ [child_die])
           else local_var_siblings fuel lib (Some nm) pc child_die freed))"
proof -
  note f = forestD(4) [OF assms(1), of d] forest_low_high [OF assms(1) refl, of d]
  from assms(3) obtain low high where "i_range i = Some (low, high)" "\<not> pc < low" "\<not> high < pc"
    by (auto simp: in_block_def not_less split: option.splits)
  moreover have "\<not> is_var_tag (i_tag i)" "is_block_tag (i_tag i)"
    using assms(3) by (auto simp: in_block_def is_block_tag_def is_var_tag_def)
  ultimately show ?thesis
    using f assms(2) by (simp add: is_var_tag_def is_block_tag_def)
qed

declare get_local_var_from_name.simps(2) [simp del]

lemma local_var_search:
  assumes F: "die_forest lib repr"
  shows "(\<forall>d. locals_ok (hd (repr d)) \<longrightarrow> tsize (hd (repr d)) \<le> fuel \<longrightarrow>
      (\<exists>v fr. get_local_var_from_name fuel lib (Some nm) pc (Some d) = Value (0, v, fr)
        \<and> map_option (\<lambda>d. hd (repr d)) v = find_local nm pc (hd (repr d))))
    \<and> (\<forall>d freed. list_all locals_ok (tl (repr d)) \<longrightarrow> fsize (tl (repr d)) < fuel \<longrightarrow>
      (\<exists>v fr. local_var_siblings fuel lib (Some nm) pc (Some d) freed = Value (0, v, fr)
        \<and> map_option (\<lambda>d. hd (repr d)) v = find_locals nm pc (tl (repr d))))"
proof (induction fuel)
  case 0
  then show ?case by (auto simp: tsize_children)
next
  case (Suc fuel)
  note IH1 = Suc.IH [THEN conjunct1, rule_format] and IH2 = Suc.IH [THEN conjunct2, rule_format]
  show ?case
  proof (intro conjI allI impI, goal_cases)
    case (1 d)
    obtain i ts where t: "hd (repr d) = DIE i ts" by (cases "hd (repr d)") auto
    then have i: "i = d_info (hd (repr d))" by simp
    show ?case
    proof (cases "in_block pc i")
      case False
      from local_var_leaf [OF F 1(1) i False, of fuel nm] t False show ?thesis by auto
    next
      case True
      then have nv: "\<not> is_var_tag (i_tag i)" by (auto simp: in_block_def is_block_tag_def is_var_tag_def)
      note run = local_var_block [OF F i True, of fuel nm]
      from forestD(2) [OF F, of d] show ?thesis
      proof (cases rule: navE)
        case (none c)
        with run t True nv show ?thesis by simp
      next
        case (some d')
        then obtain u us where r: "repr d' = u # us" "ts = u # us" using t by (cases ts) auto
        then have ok: "locals_ok (hd (repr d'))" "tsize (hd (repr d')) \<le> fuel"
          "list_all locals_ok (tl (repr d'))" "fsize (tl (repr d')) < fuel"
          using 1 t tsize_children [of u] by (auto simp: list_all_iff)
        from IH1 [OF ok(1,2)] obtain v fr where
          v: "get_local_var_from_name fuel lib (Some nm) pc (Some d') = Value (0, v, fr)"
          "map_option (\<lambda>d. hd (repr d)) v = find_local nm pc u" using r by auto
        from IH2 [OF ok(3,4), of fr] run some v t r True nv show ?thesis
          by (cases v) (auto split: option.splits)
      qed
    qed
  next
    case (2 d freed)
    from forestD(3) [OF F, of d] show ?case
    proof (cases rule: navE)
      case (none c)
      then show ?thesis by (auto simp: local_var_end_def)
    next
      case (some d')
      then obtain u us where r: "repr d' = u # us" "tl (repr d) = u # us"
        by (cases "tl (repr d)") auto
      then have ok: "locals_ok (hd (repr d'))" "tsize (hd (repr d')) \<le> fuel"
        "list_all locals_ok (tl (repr d'))" "fsize (tl (repr d')) < fuel"
        using 2 tsize_children [of u] by auto
      from IH1 [OF ok(1,2)] obtain v fr where
        v: "get_local_var_from_name fuel lib (Some nm) pc (Some d') = Value (0, v, fr)"
        "map_option (\<lambda>d. hd (repr d)) v = find_local nm pc u" using r by auto
      from IH2 [OF ok(3,4), of "freed @ fr @ [Some d]"] some v r show ?thesis
        by (cases v) (auto simp: local_var_end_def Let_def split: option.splits)
    qed
  qed
qed


text \<open>
  Claim C17. Over a forest whose variables have names and whose blocks have ranges, with fuel for
  its size, \<open>get_local_var_from_name\<close> succeeds and returns the first entry with the name in the
  walk of the reference (and \<open>NULL\<close> if there is none). So an outer variable wins over one of the
  same name in an inner block, and a block ends one address late.
\<close>

theorem get_local_var_from_name_first:
  assumes "die_forest lib repr" "locals_ok (hd (repr d))" "tsize (hd (repr d)) \<le> fuel"
  shows "\<exists>var_die freed. get_local_var_from_name fuel lib (Some nm) pc (Some d) = Value (0, var_die, freed)
    \<and> map_option (\<lambda>d. hd (repr d)) var_die = find_local nm pc (hd (repr d))"
  using local_var_search [OF assms(1), of fuel nm pc] assms(2,3) by blast

definition shadowing_function :: die_tree where
  "shadowing_function = mk_die DW_TAG_subprogram ''f'' 0x20 0x40
     [mk_die DW_TAG_variable ''x'' 1 1 [], mk_die DW_TAG_lexical_block ''b'' 0x28 0x30
        [mk_die DW_TAG_variable ''x'' 2 2 []]]"

theorem get_local_var_from_name_first_witness:
  "\<exists>var_die freed. get_local_var_from_name 9 forest_lib (Some ''x'') 0x2a (Some (shadowing_function, []))
       = Value (0, var_die, freed)
     \<and> map_option (\<lambda>d. i_range (d_info (hd (tree_repr d)))) var_die = Some (Some (1, 1))"
proof -
  have 1: "locals_ok (hd (tree_repr (shadowing_function, [])))"
    "tsize (hd (tree_repr (shadowing_function, []))) \<le> 9"
    by (simp_all add: tree_repr_def shadowing_function_def) (simp add: mk_die_def)
  have 2: "find_local ''x'' 0x2a shadowing_function = Some (mk_die DW_TAG_variable ''x'' 1 1 [])"
    by (simp add: shadowing_function_def mk_die_def is_var_tag_def in_block_def is_block_tag_def)
  from get_local_var_from_name_first [OF forest_lib_forest 1, where nm = "''x''" and pc = "0x2a"] 2 show ?thesis
    by (auto simp: tree_repr_def)
qed

text \<open>
  Claim C32. When the variable is the first child of the block, the handle returned in \<open>*var_die\<close>
  has already been given back to libdwarf.
\<close>

theorem first_local_dangling:
  assumes "die_forest lib repr" "in_block pc (d_info (hd (repr d)))" "1 < fuel"
    and "d_children (hd (repr d)) = t # ts" "is_var_tag (i_tag (d_info t))" "i_name (d_info t) = Some nm"
  shows "\<exists>var_die. get_local_var_from_name fuel lib (Some nm) pc (Some d) =
    Value (0, Some var_die, [Some var_die]) \<and> hd (repr var_die) = t"
proof -
  obtain f where f: "fuel = Suc (Suc f)" using assms(3) by (cases fuel; cases "fuel - 1") auto
  from forestD(2) [OF assms(1), of d] show ?thesis
  proof (cases rule: navE)
    case (some d')
    then have d': "hd (repr d') = t" using assms(4) by simp
    have "get_local_var_from_name (Suc f) lib (Some nm) pc (Some d') = Value (0, Some d', [])"
      using forestD(4,5) [OF assms(1), of d'] assms(5,6)
      by (auto simp: d' is_var_tag_def name_ok_def get_local_var_from_name.simps(2))
    with local_var_block [OF assms(1) refl assms(2), of "Suc f" nm] some d' show ?thesis
      by (simp add: f)
  qed (use assms(4) in simp)
qed

theorem first_local_dangling_witness:
  "\<exists>var_die. get_local_var_from_name 2 forest_lib (Some ''x'') 0x2a (Some (shadowing_function, [])) =
     Value (0, Some var_die, [Some var_die])"
  using first_local_dangling [OF forest_lib_forest, where d = "(shadowing_function, [])" and pc = "0x2a"
      and fuel = 2 and nm = "''x''"]
  by (auto simp: tree_repr_def shadowing_function_def in_block_def is_block_tag_def is_var_tag_def)

end
