(* ===== verification/Tracee.thy ===== *)
theory Tracee
  imports Dwarf_Info Registers
begin

section \<open>The debugged process and its signals (\<^verbatim>\<open>debugger/debugger.c\<close>)\<close>

text \<open>
  The state of the debugger and its calls to the kernel. The kernel is a parameter: a record of the
  \<open>ptrace\<close> requests and of \<open>waitpid\<close>, as functions on the state \<open>'k\<close> of the debugged process;
  each returns -1 when the call fails. Output is the list of the formats (without newlines) and
  arguments printed.
\<close>

subsection \<open>State\<close>

abbreviation (input) KEY_NOT_EXISTS :: C_int where "KEY_NOT_EXISTS \<equiv> 0"
abbreviation (input) INVALID_COMMAND :: C_int where "INVALID_COMMAND \<equiv> 1"
abbreviation (input) WAIT_PID_ERROR :: C_int where "WAIT_PID_ERROR \<equiv> 2"
abbreviation (input) DEBUGEE_EXITED :: C_int where "DEBUGEE_EXITED \<equiv> 3"
abbreviation (input) PTRACE_ERROR :: C_int where "PTRACE_ERROR \<equiv> 4"

datatype out_arg = OHex UWORD | OInt int | OStr string | OFloat UWORD

type_synonym printed = "string \<times> out_arg list"

record ('k, 'm, 'h) Debugger =
  c_pid :: UWORD
  load_address :: WORD
  breakpoints :: 'm
  dwarf_dbg :: 'h
  tracee :: 'k
  out :: "printed list"

record 'k tracer =
  tr_peek :: "'k \<Rightarrow> addr \<Rightarrow> UWORD \<times> bool"
  tr_poke :: "'k \<Rightarrow> addr \<Rightarrow> UWORD \<Rightarrow> int \<times> 'k"
  tr_getregs :: "'k \<Rightarrow> int \<times> regs_struct"
  tr_setregs :: "'k \<Rightarrow> regs_struct \<Rightarrow> int \<times> 'k"
  tr_cont :: "'k \<Rightarrow> int \<times> 'k"
  tr_singlestep :: "'k \<Rightarrow> int \<times> 'k"
  tr_waitpid :: "'k \<Rightarrow> int \<times> int \<times> 'k"
  tr_siginfo :: "'k \<Rightarrow> int \<times> int \<times> int"
  tr_errno :: "'k \<Rightarrow> int"

definition fprintf :: "string \<Rightarrow> out_arg list \<Rightarrow> ('k, 'm, 'h, 'z) Debugger_scheme \<Rightarrow> ('k, 'm, 'h, 'z) Debugger_scheme" where
  "fprintf fmt args dbg = dbg\<lparr>out := out dbg @ [(fmt, args)]\<rparr>"

subsection \<open>Waiting for the process\<close>

definition WIFEXITED :: "int \<Rightarrow> bool" where
  "WIFEXITED status = (status AND 0x7f = 0)"

text \<open>\<open>((signed char) ((status & 0x7f) + 1) >> 1) > 0\<close>\<close>

definition WIFSIGNALED :: "int \<Rightarrow> bool" where
  "WIFSIGNALED status = (0 < drop_bit 1 (sint (word_of_int ((status AND 0x7f) + 1) :: 8 word)))"

definition debugee_terminated :: "int \<Rightarrow> C_int" where
  "debugee_terminated status = (if WIFEXITED status \<or> WIFSIGNALED status then 1 else 0)"

text \<open>The result code and \<open>*status\<close>.\<close>

definition wait_for_signal :: "'k tracer \<Rightarrow> ('k, 'm, 'h, 'z) Debugger_scheme \<Rightarrow> C_int \<times> int \<times> ('k, 'm, 'h, 'z) Debugger_scheme" where
  "wait_for_signal tr dbg = (case tr_waitpid tr (tracee dbg) of (r, status, k) \<Rightarrow>
     let dbg = dbg\<lparr>tracee := k\<rparr> in
     if r = -1 then (WAIT_PID_ERROR, status, dbg)
     else if debugee_terminated status \<noteq> 0 then (DEBUGEE_EXITED, status, dbg)
     else (0, status, dbg))"

definition get_siginfo :: "'k tracer \<Rightarrow> ('k, 'm, 'h, 'z) Debugger_scheme \<Rightarrow> C_int \<times> int \<times> int" where
  "get_siginfo tr dbg = (case tr_siginfo tr (tracee dbg) of (r, signo, code) \<Rightarrow>
     if r = -1 then (PTRACE_ERROR, signo, code) else (0, signo, code))"

definition get_regs_struct :: "'k tracer \<Rightarrow> ('k, 'm, 'h, 'z) Debugger_scheme \<Rightarrow> C_int \<times> regs_struct" where
  "get_regs_struct tr dbg = (case tr_getregs tr (tracee dbg) of (r, regs) \<Rightarrow>
     if r = -1 then (PTRACE_ERROR, regs) else (0, regs))"

definition set_regs_struct :: "'k tracer \<Rightarrow> ('k, 'm, 'h, 'z) Debugger_scheme \<Rightarrow> regs_struct
    \<Rightarrow> C_int \<times> ('k, 'm, 'h, 'z) Debugger_scheme" where
  "set_regs_struct tr dbg regs = (case tr_setregs tr (tracee dbg) regs of (r, k) \<Rightarrow>
     (if r = -1 then PTRACE_ERROR else 0, dbg\<lparr>tracee := k\<rparr>))"

abbreviation (input) SIGTRAP :: int where "SIGTRAP \<equiv> 5"
abbreviation (input) SI_KERNEL :: int where "SI_KERNEL \<equiv> 0x80"
abbreviation (input) TRAP_BRKPT :: int where "TRAP_BRKPT \<equiv> 1"

text \<open>After a breakpoint trap the program counter is put back on the breakpoint.\<close>

definition handle_sigtrap :: "'k tracer \<Rightarrow> ('k, 'm, 'h, 'z) Debugger_scheme \<Rightarrow> int
    \<Rightarrow> C_int \<times> ('k, 'm, 'h, 'z) Debugger_scheme" where
  "handle_sigtrap tr dbg si_code =
    (if si_code = SI_KERNEL \<or> si_code = TRAP_BRKPT then
       (case get_regs_struct tr dbg of (res, regs) \<Rightarrow>
          if res \<noteq> 0 then (res, dbg)
          else (case get_register REG_rip of
              (_, None) \<Rightarrow> (0, dbg)
            | (_, Some (load, store)) \<Rightarrow>
                (case set_regs_struct tr dbg (store (load regs - 1) regs) of (res, dbg) \<Rightarrow>
                   if res \<noteq> 0 then (res, dbg) else (0, dbg))))
     else (0, dbg))"

definition wait_and_handle_signal :: "'k tracer \<Rightarrow> ('k, 'm, 'h, 'z) Debugger_scheme
    \<Rightarrow> C_int \<times> ('k, 'm, 'h, 'z) Debugger_scheme" where
  "wait_and_handle_signal tr dbg =
    (case wait_for_signal tr dbg of (res, status, dbg) \<Rightarrow>
       if res \<noteq> 0 then (res, dbg)
       else (case get_siginfo tr dbg of (res, signo, code) \<Rightarrow>
         if res \<noteq> 0 then (res, dbg)
         else if signo = SIGTRAP then handle_sigtrap tr dbg code
         else (-1, fprintf ''Unhandled signal: %x'' [OInt code] dbg)))"

subsection \<open>Memory, registers, resuming\<close>

definition ptrace_peek_data :: "'k tracer \<Rightarrow> ('k, 'm, 'h, 'z) Debugger_scheme \<Rightarrow> addr \<Rightarrow> C_int \<times> UWORD" where
  "ptrace_peek_data tr dbg a = (case tr_peek tr (tracee dbg) a of (d, err) \<Rightarrow>
     (if d = -1 \<and> err then PTRACE_ERROR else 0, d))"

definition debug_continue :: "'k tracer \<Rightarrow> ('k, 'm, 'h, 'z) Debugger_scheme \<Rightarrow> C_int \<times> ('k, 'm, 'h, 'z) Debugger_scheme" where
  "debug_continue tr dbg = (case tr_cont tr (tracee dbg) of (r, k) \<Rightarrow>
     (if r = -1 then PTRACE_ERROR else 0, dbg\<lparr>tracee := k\<rparr>))"

definition single_step :: "'k tracer \<Rightarrow> ('k, 'm, 'h, 'z) Debugger_scheme \<Rightarrow> C_int \<times> ('k, 'm, 'h, 'z) Debugger_scheme" where
  "single_step tr dbg = (case tr_singlestep tr (tracee dbg) of (r, k) \<Rightarrow>
     (if r = -1 then PTRACE_ERROR else 0, dbg\<lparr>tracee := k\<rparr>))"

text \<open>\<open>*value\<close> is assigned only on success.\<close>

definition get_reg_value :: "'k tracer \<Rightarrow> ('k, 'm, 'h, 'z) Debugger_scheme \<Rightarrow> REGISTER \<Rightarrow> C_int \<times> UWORD option" where
  "get_reg_value tr dbg reg = (case get_regs_struct tr dbg of (res, regs) \<Rightarrow>
     if res > 0 then (res, None)
     else (case get_register reg of
         (_, None) \<Rightarrow> (NO_SUCH_REGISTER, None)
       | (_, Some (load, _)) \<Rightarrow> (0, Some (load regs))))"

definition set_reg_value :: "'k tracer \<Rightarrow> ('k, 'm, 'h, 'z) Debugger_scheme \<Rightarrow> REGISTER \<Rightarrow> WORD
    \<Rightarrow> C_int \<times> ('k, 'm, 'h, 'z) Debugger_scheme" where
  "set_reg_value tr dbg reg v = (case get_regs_struct tr dbg of (res, regs) \<Rightarrow>
     if res \<noteq> 0 then (res, dbg)
     else (case get_register reg of
         (_, None) \<Rightarrow> (NO_SUCH_REGISTER, dbg)
       | (_, Some (_, store)) \<Rightarrow>
           (case set_regs_struct tr dbg (store v regs) of (res, dbg) \<Rightarrow>
              if res \<noteq> 0 then (res, dbg) else (0, dbg))))"


subsection \<open>What the kernel promises\<close>

text \<open>
  \<open>same_protected\<close>: the two register sets agree in the registers whose values the kernel checks (the
  flags, the segments and their bases, \<open>orig_rax\<close>). \<open>user_register\<close>: the integer registers, the stack
  pointer and the program counter.
\<close>

definition same_protected :: "regs_struct \<Rightarrow> regs_struct \<Rightarrow> bool" where
  "same_protected r s \<longleftrightarrow> eflags r = eflags s \<and> orig_rax r = orig_rax s \<and> cs r = cs s \<and> ss r = ss s \<and> ds r = ds s
     \<and> es r = es s \<and> fs r = fs s \<and> gs r = gs s \<and> fs_base r = fs_base s \<and> gs_base r = gs_base s"

definition user_register :: "REGISTER \<Rightarrow> bool" where
  "user_register reg \<longleftrightarrow> reg \<le> REG_rdi \<or> reg = REG_rip \<or> reg = REG_rsp"

lemma same_protected_rip [simp]: "same_protected (s\<lparr>rip := v\<rparr>) s"
  by (simp add: same_protected_def)

lemma same_protected_user:
  assumes "user_register reg" "get_register reg = (0, Some (load, store))"
  shows "same_protected (store v s) s"
proof -
  have "reg < NUM_REGISTERS" using assms(1) by (auto simp: user_register_def word_less_nat_alt word_le_nat_alt)
  from REGISTER_cases [OF this] assms(1) have
    "reg \<in> {0, 1, 2, 3, 4, 5, 6, 7, 8, 9, 10, 11, 12, 13, 14, 16, 19}" by (auto simp: user_register_def upt_rec)
  with assms(2) show ?thesis by (auto simp: get_register_def same_protected_def)
qed

text \<open>
  \<open>process_ok tr mem regs\<close>: for a stopped process with all of its memory mapped, reads and writes of
  a word are eight little-endian bytes at any address, and registers are read whole. Writing registers
  never changes memory; it succeeds and is taken over when it changes only user registers. Of other
  writes nothing is assumed: the kernel may refuse them or store other values.
\<close>

definition process_ok :: "'k tracer \<Rightarrow> ('k \<Rightarrow> addr \<Rightarrow> byte) \<Rightarrow> ('k \<Rightarrow> regs_struct) \<Rightarrow> bool" where
  "process_ok tr mem regs \<longleftrightarrow> (\<forall>k.
     (\<forall>a. \<not> snd (tr_peek tr k a) \<and> (\<forall>j<8. byte_of (fst (tr_peek tr k a)) j = mem k (a + of_nat j)))
     \<and> (\<forall>a w. fst (tr_poke tr k a w) = 0 \<and> regs (snd (tr_poke tr k a w)) = regs k
          \<and> (\<forall>x. mem (snd (tr_poke tr k a w)) x = (if x - a < 8 then byte_of w (unat (x - a)) else mem k x)))
     \<and> tr_getregs tr k = (0, regs k)
     \<and> (\<forall>r. mem (snd (tr_setregs tr k r)) = mem k
          \<and> (same_protected r (regs k) \<longrightarrow> fst (tr_setregs tr k r) = 0 \<and> regs (snd (tr_setregs tr k r)) = r)))"

lemma process_okD:
  assumes "process_ok tr mem regs"
  shows "\<not> snd (tr_peek tr k a)" "j < 8 \<Longrightarrow> byte_of (fst (tr_peek tr k a)) j = mem k (a + of_nat j)"
    "fst (tr_poke tr k a w) = 0" "regs (snd (tr_poke tr k a w)) = regs k"
    "mem (snd (tr_poke tr k a w)) x = (if x - a < 8 then byte_of w (unat (x - a)) else mem k x)"
    "tr_getregs tr k = (0, regs k)" "same_protected r (regs k) \<Longrightarrow> fst (tr_setregs tr k r) = 0"
    "same_protected r (regs k) \<Longrightarrow> regs (snd (tr_setregs tr k r)) = r" "mem (snd (tr_setregs tr k r)) = mem k"
  using assms unfolding process_ok_def by blast+

text \<open>
  A concrete process for the witnesses: its memory and registers, and what the next stops report.
\<close>

record sim =
  sim_mem :: "addr \<Rightarrow> byte"
  sim_regs :: regs_struct
  sim_code :: int
  sim_stop :: UWORD

definition bytes_word :: "(nat \<Rightarrow> byte) \<Rightarrow> UWORD" where
  "bytes_word f = ucast (f 0) OR push_bit 8 (ucast (f 1)) OR push_bit 16 (ucast (f 2))
     OR push_bit 24 (ucast (f 3)) OR push_bit 32 (ucast (f 4)) OR push_bit 40 (ucast (f 5))
     OR push_bit 48 (ucast (f 6)) OR push_bit 56 (ucast (f 7))"

lemma byte_of_bytes_word:
  assumes "j < 8" shows "byte_of (bytes_word f) j = f j"
proof -
  have big: "bit (b :: byte) n \<Longrightarrow> n < 8" for b n using bit_imp_le_length [of b n] by simp
  from assms have "j \<in> {0, 1, 2, 3, 4, 5, 6, 7}" by auto
  then show ?thesis
    by (elim insertE emptyE; intro bit_word_eqI) (auto simp: bytes_word_def bit_simps dest: big)
qed

definition sim_tracer :: "sim tracer" where
  "sim_tracer = \<lparr>
     tr_peek = (\<lambda>k a. (bytes_word (\<lambda>j. sim_mem k (a + of_nat j)), False)),
     tr_poke = (\<lambda>k a w. (0, k\<lparr>sim_mem := \<lambda>x. if x - a < 8 then byte_of w (unat (x - a)) else sim_mem k x\<rparr>)),
     tr_getregs = (\<lambda>k. (0, sim_regs k)),
     tr_setregs = (\<lambda>k r. (0, k\<lparr>sim_regs := r\<rparr>)),
     tr_cont = (\<lambda>k. (0, k\<lparr>sim_regs := (sim_regs k)\<lparr>rip := sim_stop k + 1\<rparr>, sim_code := SI_KERNEL\<rparr>)),
     tr_singlestep = (\<lambda>k. (0, k\<lparr>sim_regs := (sim_regs k)\<lparr>rip := rip (sim_regs k) + 1\<rparr>, sim_code := 2\<rparr>)),
     tr_waitpid = (\<lambda>k. (1, 0x57f, k)),
     tr_siginfo = (\<lambda>k. (0, SIGTRAP, sim_code k)),
     tr_errno = (\<lambda>_. 0)\<rparr>"

lemma sim_process: "process_ok sim_tracer sim_mem sim_regs"
  by (simp add: process_ok_def sim_tracer_def byte_of_bytes_word)

subsection \<open>Lemmas\<close>

text \<open>
  The test for the end of the process: it goes on exactly when the low seven bits of
  the status are all set (stopped or continued).
\<close>

theorem debugee_terminated_iff:
  "debugee_terminated status = (if status AND 0x7f = 0x7f then 0 else 1)"
proof -
  define x where "x = status AND 0x7f"
  have "x = status mod 2 ^ 7" unfolding x_def using take_bit_eq_mask [of 7 status]
    by (simp add: mask_eq_exp_minus_1 take_bit_eq_mod)
  then have x: "0 \<le> x" "x < 128" by simp_all
  have s: "sint (word_of_int (x + 1) :: 8 word) = (if x = 127 then -128 else x + 1)"
  proof -
    have "sint (word_of_int k :: 8 word) = k" if "-128 \<le> k" "k < 128" for k
      using that by (simp add: signed_of_int signed_take_bit_int_eq_self)
    from this [of "x + 1"] x show ?thesis by (auto simp del: of_int_add)
  qed
  have "drop_bit 1 (x + 1) > 0 \<longleftrightarrow> 0 < x" if "x \<noteq> 127" using x that by (simp add: drop_bit_eq_div) arith
  with s x show ?thesis
    by (auto simp: debugee_terminated_def WIFEXITED_def WIFSIGNALED_def x_def [symmetric])
qed

text \<open>
  Writing a register: \<open>set_reg_value\<close> asks the kernel for the registers as they are with only this one
  changed, and reports what the kernel answers. A user register is then changed as asked.
\<close>

lemma set_reg_run:
  assumes P: "process_ok tr mem regs" and "reg < NUM_REGISTERS"
    and r: "regs_array r = (regs_array (regs (tracee dbg)))[unat reg := v]"
    and t: "tr_setregs tr (tracee dbg) r = (code, k)"
  shows "set_reg_value tr dbg reg v = (if code = -1 then PTRACE_ERROR else 0, dbg\<lparr>tracee := k\<rparr>) \<and> mem k = mem (tracee dbg)
    \<and> (\<exists>load store. get_register reg = (0, Some (load, store)) \<and> (\<forall>s. load s = regs_array s ! unat reg))
    \<and> (user_register reg \<longrightarrow> code = 0 \<and> regs k = r)"
proof -
  from get_register_cases [of reg] assms(2) obtain load store where
    g: "get_register reg = (0, Some (load, store))" "\<And>s v. load s = regs_array s ! unat reg"
      "\<And>s v. regs_array (store v s) = (regs_array s)[unat reg := v]" by auto
  have s: "store v (regs (tracee dbg)) = r" using g(3) r by (simp add: regs_array_inject [symmetric])
  have "code = 0 \<and> regs k = r" if "user_register reg"
    using same_protected_user [OF that g(1), of v "regs (tracee dbg)"] process_okD(7,8) [OF P, of r "tracee dbg"] t s by simp
  moreover have "mem k = mem (tracee dbg)" using process_okD(9) [OF P, of "tracee dbg" r] t by simp
  ultimately show ?thesis using g(1,2) t process_okD(6) [OF P]
    by (simp add: set_reg_value_def get_regs_struct_def set_regs_struct_def s)
qed

definition sim_start :: sim where
  "sim_start = \<lparr>sim_mem = (\<lambda>_. 0x90), sim_regs = undefined\<lparr>rip := 0x1000\<rparr>, sim_code = 2, sim_stop = 0x1010\<rparr>"

definition sim_dbg :: "'m \<Rightarrow> 'h \<Rightarrow> (sim, 'm, 'h) Debugger" where
  "sim_dbg m h = \<lparr>c_pid = 1, load_address = 0, breakpoints = m, dwarf_dbg = h, tracee = sim_start, out = []\<rparr>"

text \<open>
  Claim C20. Stopping with a trap: after a breakpoint trap the program counter is moved back by
  one (onto the breakpoint), after any other trap it stays; memory does not change and the result
  is 0.
\<close>

theorem trap_stop:
  assumes "process_ok tr mem regs"
    and "tr_waitpid tr (tracee dbg) = (r, status, k)" "r \<noteq> -1" "debugee_terminated status = 0"
    and "tr_siginfo tr k = (r', SIGTRAP, code)" "r' \<noteq> -1"
  shows "\<exists>k'. wait_and_handle_signal tr dbg = (0, dbg\<lparr>tracee := k'\<rparr>) \<and> mem k' = mem k
    \<and> regs k' = (if code = SI_KERNEL \<or> code = TRAP_BRKPT then (regs k)\<lparr>rip := rip (regs k) - 1\<rparr> else regs k)"
proof -
  note P = process_okD [OF assms(1)]
  let ?new = "(regs k)\<lparr>rip := rip (regs k) - 1\<rparr>"
  define k' where "k' = snd (tr_setregs tr k ?new)"
  have s: "tr_setregs tr k ?new = (0, k')" by (simp add: k'_def prod_eq_iff P(7))
  then have k': "regs k' = ?new" "mem k' = mem k" using P(8) [of ?new k] P(9) [of k ?new] by simp_all
  have "wait_and_handle_signal tr dbg = handle_sigtrap tr (dbg\<lparr>tracee := k\<rparr>) code"
    using assms(2-6) by (simp add: wait_and_handle_signal_def wait_for_signal_def get_siginfo_def Let_def)
  also have "\<dots> = (0, dbg\<lparr>tracee := if code = SI_KERNEL \<or> code = TRAP_BRKPT then k' else k\<rparr>)"
    using s by (simp add: handle_sigtrap_def get_regs_struct_def set_regs_struct_def P(6) get_register_rip)
  finally show ?thesis using k' by auto
qed

theorem trap_stop_witness:
  "\<exists>k'. wait_and_handle_signal sim_tracer (sim_dbg () ()) = (0, (sim_dbg () ())\<lparr>tracee := k'\<rparr>)
     \<and> sim_mem k' = sim_mem sim_start"
  using trap_stop [OF sim_process, of "sim_dbg () ()" 1 "0x57f" sim_start 0 2]
  by (auto simp: sim_tracer_def sim_dbg_def sim_start_def debugee_terminated_def WIFEXITED_def WIFSIGNALED_def)

end
