(* ===== verification/Line_Table.thy ===== *)
theory Line_Table
  imports Dwarf_Info
begin

section \<open>Line tables (\<^verbatim>\<open>debugger/dwarf_info.c\<close>)\<close>

text \<open>
  The rows of a unit's line table, the binary search for an address, and the search for the first
  row of a source line. The rows are the list that libdwarf returns with its length.
\<close>

subsection \<open>The iterator\<close>

record ('c, 'l, 'd) Line_Iterator =
  line_context :: "'c option"
  dw_lines :: "'l list"
  cu_die_attach :: "'d option"

definition line_count :: "('c, 'l, 'd) Line_Iterator \<Rightarrow> int" where
  "line_count it = int (length (dw_lines it))"

text \<open>The context is \<open>None\<close> when there is none (it has been freed, or was never made).\<close>

definition get_line_context :: "('h, 'd, 'c, 'l, 'z) dwarf_lib_scheme \<Rightarrow> 'd option \<Rightarrow> C_int \<times> 'c option" where
  "get_line_context lib cu_die = (case srclines_b lib cu_die of (res, ctx, table_count) \<Rightarrow>
     if res \<noteq> DW_DLV_OK then (res, None)
     else if table_count \<noteq> 1 then (DW_DLV_NO_ENTRY, None)
     else (res, Some ctx))"

definition get_src_lines_from_context :: "('h, 'd, 'c, 'l, 'z) dwarf_lib_scheme \<Rightarrow> 'c \<Rightarrow> C_int \<times> 'l list" where
  "get_src_lines_from_context lib ctx = srclines_from_linecontext lib ctx"

definition get_line_iterator :: "('h, 'd, 'c, 'l, 'z) dwarf_lib_scheme \<Rightarrow> 'd option
    \<Rightarrow> C_int \<times> ('c, 'l, 'd) Line_Iterator" where
  "get_line_iterator lib cu_die =
    (case get_line_context lib cu_die of
       (res, None) \<Rightarrow> (res, \<lparr>line_context = None, dw_lines = [], cu_die_attach = None\<rparr>)
     | (res, Some ctx) \<Rightarrow>
         (case get_src_lines_from_context lib ctx of (res, lines) \<Rightarrow>
            if res \<noteq> DW_DLV_OK
            then (res, \<lparr>line_context = None, dw_lines = [], cu_die_attach = None\<rparr>)
            else (res, \<lparr>line_context = Some ctx, dw_lines = lines, cu_die_attach = None\<rparr>)))"

definition attach_cu_die :: "('c, 'l, 'd) Line_Iterator \<Rightarrow> 'd option \<Rightarrow> ('c, 'l, 'd) Line_Iterator" where
  "attach_cu_die it cu_die = it\<lparr>cu_die_attach := cu_die\<rparr>"

text \<open>What \<open>free_line_iterator\<close> gives back to libdwarf: the attached unit and the context.\<close>

definition free_line_iterator :: "('c, 'l, 'd) Line_Iterator \<Rightarrow> 'd option \<times> 'c option" where
  "free_line_iterator it = (cu_die_attach it, line_context it)"

subsection \<open>Binary search\<close>

text \<open>The loop ends with a code and the final \<open>high\<close>.\<close>

function search_loop :: "('h, 'd, 'c, 'l, 'z) dwarf_lib_scheme \<Rightarrow> 'l list \<Rightarrow> UWORD \<Rightarrow> int \<Rightarrow> int
    \<Rightarrow> C_int \<times> int" where
  "search_loop lib lines addr_offset low high =
    (if low \<le> high then
       (let mid = (low + high) div 2 in
        case lineaddr lib (lines ! nat mid) of (res, line_addr) \<Rightarrow>
          if res \<noteq> DW_DLV_OK then (res, high)
          else if line_addr > addr_offset then search_loop lib lines addr_offset low (mid - 1)
          else search_loop lib lines addr_offset (mid + 1) high)
     else (0, high))"
  by pat_completeness auto
termination by (relation "measure (\<lambda>(_, _, _, low, high). nat (high - low + 1))") auto

declare search_loop.simps [simp del]

definition search_addr_in_lines :: "('h, 'd, 'c, 'l, 'z) dwarf_lib_scheme \<Rightarrow> ('c, 'l, 'd) Line_Iterator
    \<Rightarrow> UWORD \<Rightarrow> C_int \<times> int option" where
  "search_addr_in_lines lib it addr_offset =
    (case search_loop lib (dw_lines it) addr_offset 0 (line_count it - 1) of (res, high) \<Rightarrow>
       if res \<noteq> DW_DLV_OK then (res, None)
       else if high < 0 then (DW_DLV_NO_ENTRY, None)
       else (0, Some high))"

text \<open>The row number, where it is assigned, and the cursor.\<close>

definition get_line_no_from_addr :: "nat \<Rightarrow> ('h, 'd, 'c, 'l, 'z) dwarf_lib_scheme \<Rightarrow> UWORD \<Rightarrow> 'h
    \<Rightarrow> (C_int \<times> UWORD option \<times> 'h) run" where
  "get_line_no_from_addr fuel lib addr_offset h =
    run_bind (get_cu_from_addr fuel lib addr_offset h) (\<lambda>(res, cu_die, h).
      if res = DW_DLV_ERROR then Value (res, None, h)
      else (case get_line_iterator lib cu_die of (res, it) \<Rightarrow>
        if res \<noteq> DW_DLV_OK then Value (res, None, h)
        else (case search_addr_in_lines lib (attach_cu_die it cu_die) addr_offset of
            (res, None) \<Rightarrow> Value (1, None, h)
          | (res, Some line_index) \<Rightarrow>
              (case lineno lib (dw_lines it ! nat line_index) of (res, line_no) \<Rightarrow>
                Value (res, if res = DW_DLV_OK then Some line_no else None, h)))))"

subsection \<open>Addresses of source lines\<close>

text \<open>
  The loop over the rows; \<open>line_no\<close> is not assigned when the row has no number.
\<close>

fun source_line_loop :: "('h, 'd, 'c, 'l, 'z) dwarf_lib_scheme \<Rightarrow> string \<Rightarrow> UWORD \<Rightarrow> 'l list
    \<Rightarrow> C_int \<times> UWORD option" where
  "source_line_loop lib source_file_name line_num [] = (DW_DLV_NO_ENTRY, None)"
| "source_line_loop lib source_file_name line_num (l # lines) =
    (case linesrc lib l of (res, file_name) \<Rightarrow>
       if res \<noteq> DW_DLV_OK then (res, None)
       else if file_name \<noteq> source_file_name then source_line_loop lib source_file_name line_num lines
       else (case lineno lib l of (res, no) \<Rightarrow>
         let line_no = (if res = DW_DLV_OK then no else junk lib) in
         if res = DW_DLV_ERROR then (res, None)
         else if line_no < line_num then source_line_loop lib source_file_name line_num lines
         else (case lineaddr lib l of (res, line_addr) \<Rightarrow>
           (res, if res = DW_DLV_OK then Some line_addr else None))))"

definition get_addr_from_source_line :: "nat \<Rightarrow> ('h, 'd, 'c, 'l, 'z) dwarf_lib_scheme \<Rightarrow> string \<Rightarrow> UWORD
    \<Rightarrow> 'h \<Rightarrow> (C_int \<times> UWORD option \<times> 'h) run" where
  "get_addr_from_source_line fuel lib source_file_name line_num h =
    run_bind (get_cu_from_file_name fuel lib source_file_name h) (\<lambda>(res, cu_die, h).
      if res \<noteq> DW_DLV_OK then Value (res, None, h)
      else (case get_line_iterator lib cu_die of (res, it) \<Rightarrow>
        if res \<noteq> DW_DLV_OK then Value (res, None, h)
        else (case source_line_loop lib source_file_name line_num (dw_lines (attach_cu_die it cu_die)) of
          (res, line_addr) \<Rightarrow> Value (res, line_addr, h))))"

subsection \<open>Correctness of the binary search\<close>

text \<open>\<open>rows_ok\<close>: libdwarf can read every row.\<close>

definition rows_ok :: "('h, 'd, 'c, 'l, 'z) dwarf_lib_scheme \<Rightarrow> 'l list \<Rightarrow> bool" where
  "rows_ok lib ls = (\<forall>l\<in>set ls. fst (lineaddr lib l) = DW_DLV_OK \<and> fst (lineno lib l) = DW_DLV_OK
     \<and> fst (linesrc lib l) = DW_DLV_OK)"

abbreviation "addr_of lib l \<equiv> snd (lineaddr lib l)"

definition rows_upto :: "('h, 'd, 'c, 'l, 'z) dwarf_lib_scheme \<Rightarrow> UWORD \<Rightarrow> 'l list \<Rightarrow> nat" where
  "rows_upto lib a ls = length (takeWhile (\<lambda>l. addr_of lib l \<le> a) ls)"

lemma rows_upto_iff:
  assumes "sorted (map (addr_of lib) ls)" "i < length ls"
  shows "addr_of lib (ls ! i) \<le> a \<longleftrightarrow> i < rows_upto lib a ls"
proof
  assume le: "addr_of lib (ls ! i) \<le> a"
  show "i < rows_upto lib a ls"
  proof (rule ccontr)
    let ?n = "rows_upto lib a ls"
    assume "\<not> ?thesis"
    with assms have n: "?n \<le> i" "?n < length ls" by auto
    then have "\<not> addr_of lib (ls ! ?n) \<le> a"
      unfolding rows_upto_def using nth_length_takeWhile by blast
    moreover have "addr_of lib (ls ! ?n) \<le> addr_of lib (ls ! i)"
      using sorted_nth_mono [OF assms(1) n(1)] assms(2) n(2) by simp
    ultimately show False using le by simp
  qed
next
  assume i: "i < rows_upto lib a ls"
  then show "addr_of lib (ls ! i) \<le> a"
    unfolding rows_upto_def by (metis nth_mem set_takeWhileD takeWhile_nth)
qed

lemma search_loop_finds:
  assumes "rows_ok lib ls" "sorted (map (addr_of lib) ls)"
    and "0 \<le> low" "low \<le> high + 1" "high < int (length ls)"
    and "low \<le> int (rows_upto lib a ls)" "int (rows_upto lib a ls) \<le> high + 1"
  shows "search_loop lib ls a low high = (DW_DLV_OK, int (rows_upto lib a ls) - 1)"
  using assms(3-)
proof (induction "nat (high - low + 1)" arbitrary: low high rule: less_induct)
  case less
  show ?case
  proof (cases "low \<le> high")
    case False
    with less.prems show ?thesis by (subst search_loop.simps) simp
  next
    case True
    define mid where "mid = (low + high) div 2"
    have mid: "low \<le> mid" "mid \<le> high" "nat mid < length ls" "0 \<le> mid"
      using True less.prems by (auto simp: mid_def)
    then have ok: "fst (lineaddr lib (ls ! nat mid)) = DW_DLV_OK"
      using assms(1) by (simp add: rows_ok_def)
    have iff: "addr_of lib (ls ! nat mid) \<le> a \<longleftrightarrow> mid < int (rows_upto lib a ls)"
      using rows_upto_iff [OF assms(2) mid(3), of a] mid(4) by (simp add: nat_less_iff)
    have "search_loop lib ls a low high = (if mid < int (rows_upto lib a ls)
        then search_loop lib ls a (mid + 1) high else search_loop lib ls a low (mid - 1))"
    proof -
      from iff have "a < addr_of lib (ls ! nat mid) \<longleftrightarrow> \<not> mid < int (rows_upto lib a ls)" by auto
      with True show ?thesis
        unfolding search_loop.simps [of lib ls a low high] Let_def mid_def [symmetric] case_prod_beta
        by (simp add: ok)
    qed
    with less.hyps [of "mid - 1" low] less.hyps [of high "mid + 1"] less.prems mid show ?thesis by auto
  qed
qed

text \<open>
  Claim C13. On a table sorted by address, \<open>search_addr_in_lines\<close> finds the last row whose address
  is not above the given one, and reports \<open>DW_DLV_NO_ENTRY\<close> exactly when all rows are above it.
\<close>

theorem search_addr_in_lines_last:
  assumes "rows_ok lib (dw_lines it)" "sorted (map (addr_of lib) (dw_lines it))"
  shows "(\<forall>l\<in>set (dw_lines it). a < addr_of lib l)
      \<and> search_addr_in_lines lib it a = (DW_DLV_NO_ENTRY, None)
    \<or> (\<exists>i<length (dw_lines it). search_addr_in_lines lib it a = (DW_DLV_OK, Some (int i))
      \<and> (\<forall>j<length (dw_lines it). addr_of lib (dw_lines it ! j) \<le> a \<longleftrightarrow> j \<le> i))"
proof -
  let ?ls = "dw_lines it" and ?n = "rows_upto lib a (dw_lines it)"
  have n: "?n \<le> length ?ls" by (simp add: rows_upto_def length_takeWhile_le)
  then have run: "search_loop lib ?ls a 0 (line_count it - 1) = (DW_DLV_OK, int ?n - 1)"
    by (intro search_loop_finds assms) (auto simp: line_count_def)
  have iff: "addr_of lib (?ls ! j) \<le> a \<longleftrightarrow> j < ?n" if "j < length ?ls" for j
    by (rule rows_upto_iff [OF assms(2) that])
  show ?thesis
  proof (cases "?n = 0")
    case True
    with iff have "\<forall>l\<in>set ?ls. a < addr_of lib l"
      by (metis in_set_conv_nth not_le not_less0)
    with True run show ?thesis by (simp add: search_addr_in_lines_def)
  next
    case False
    then have "search_addr_in_lines lib it a = (DW_DLV_OK, Some (int (?n - 1)))" "?n - 1 < length ?ls"
      using run n by (simp_all add: search_addr_in_lines_def of_nat_diff)
    moreover have "addr_of lib (?ls ! j) \<le> a \<longleftrightarrow> j \<le> ?n - 1" if "j < length ?ls" for j
      using iff [OF that] False by linarith
    ultimately show ?thesis by blast
  qed
qed


definition sample_rows :: "line_row list" where
  "sample_rows = [\<lparr>row_addr = 0x20, row_no = 3, row_src = ''/src/b.c''\<rparr>,
     \<lparr>row_addr = 0x24, row_no = 4, row_src = ''/src/b.c''\<rparr>,
     \<lparr>row_addr = 0x30, row_no = 8, row_src = ''/src/b.c''\<rparr>]"

definition sample_it :: "(line_row list, line_row, die_tree \<times> die_tree list) Line_Iterator" where
  "sample_it = \<lparr>line_context = Some sample_rows, dw_lines = sample_rows, cu_die_attach = None\<rparr>"

lemma forest_rows: "rows_ok forest_lib ls" "addr_of forest_lib l = row_addr l"
  "lineno forest_lib l = (DW_DLV_OK, row_no l)" "linesrc forest_lib l = (DW_DLV_OK, row_src l)"
  by (simp_all add: rows_ok_def forest_lib_def)

theorem search_addr_in_lines_last_witness:
  "search_addr_in_lines forest_lib sample_it 0x2f = (DW_DLV_OK, Some 1)"
proof -
  have "rows_ok forest_lib (dw_lines sample_it)"
    "sorted (map (addr_of forest_lib) (dw_lines sample_it))"
    by (simp_all add: forest_rows sample_it_def sample_rows_def)
  from search_addr_in_lines_last [OF this, where a = "0x2f"] obtain i where
    i: "i < 3" "search_addr_in_lines forest_lib sample_it 0x2f = (DW_DLV_OK, Some (int i))"
      "\<forall>j<3. row_addr (sample_rows ! j) \<le> 0x2f \<longleftrightarrow> j \<le> i"
    by (auto simp: forest_rows sample_it_def sample_rows_def)
  from i(3) [rule_format, of 1] i(3) [rule_format, of 2] i(1) have "i = 1"
    by (simp add: sample_rows_def)
  with i(2) show ?thesis by simp
qed

subsection \<open>The two questions, from the unit to the row\<close>

lemma source_line_find:
  "rows_ok lib ls \<Longrightarrow> source_line_loop lib src n ls =
    (case find (\<lambda>l. snd (linesrc lib l) = src \<and> n \<le> snd (lineno lib l)) ls of
       None \<Rightarrow> (DW_DLV_NO_ENTRY, None) | Some l \<Rightarrow> (DW_DLV_OK, Some (addr_of lib l)))"
  by (induction ls) (auto simp: rows_ok_def case_prod_beta not_le)

text \<open>
  Claim C18. \<open>get_addr_from_source_line\<close>, when libdwarf can read everything: it takes the last
  unit with the file's path and returns the address of the first row of the table, in table
  order, that belongs to the file and whose number is at least the one asked for. A blank line
  therefore gets the address of a later line; \<open>DW_DLV_NO_ENTRY\<close> means that there is no row from
  that line on (the header file promises it for blank lines too).
\<close>

theorem get_addr_from_source_line_first:
  assumes "headers (next_cu_header lib) h ds h'" "CuError \<notin> file_verdict lib src ` Some ` set ds"
    and "length ds < fuel" "last_of (\<lambda>d. file_verdict lib src (Some d) = CuTake) None ds = Some d"
    and "get_line_iterator lib (Some d) = (DW_DLV_OK, it)" "rows_ok lib (dw_lines it)"
  shows "get_addr_from_source_line fuel lib src n h =
    (case find (\<lambda>l. snd (linesrc lib l) = src \<and> n \<le> snd (lineno lib l)) (dw_lines it) of
       None \<Rightarrow> Value (DW_DLV_NO_ENTRY, None, h')
     | Some l \<Rightarrow> Value (DW_DLV_OK, Some (addr_of lib l), h'))"
  using by_file.scan_last [OF assms(1-3), of None] assms(4,5) source_line_find [OF assms(6), of src n]
  by (simp add: get_addr_from_source_line_def get_cu_from_file_name_def attach_cu_die_def split: option.splits)

definition sample_cu :: die_tree where
  "sample_cu = DIE \<lparr>i_tag = 0x11, i_name = Some ''b.c'', i_range = Some (0x20, 0x60),
     i_dir = Some ''/src'', i_lines = sample_rows\<rparr> []"

lemma sample_cu_facts:
  "file_verdict forest_lib ''/src/b.c'' (Some (sample_cu, [])) = CuTake"
  "get_line_iterator forest_lib (Some (sample_cu, [])) = (DW_DLV_OK, sample_it)"
  "dw_lines sample_it = sample_rows" "covers a sample_cu = (0x20 \<le> a \<and> a < 0x60)"
  by (simp_all add: sample_cu_def file_verdict_def forest_lib_def on_die_def text_result_def cu_path_def
      merge_and_check_path_def strncmp_eq_def get_line_iterator_def get_line_context_def
      get_src_lines_from_context_def sample_it_def covers_def)

lemma sample_headers: "headers (next_cu_header forest_lib) ([sample_cu], [sample_cu]) [(sample_cu, [])]
    ([sample_cu], [sample_cu])"
  using forest_lib_headers [of "[sample_cu]"] by simp

theorem get_addr_from_source_line_first_witness:
  "get_addr_from_source_line 2 forest_lib ''/src/b.c'' 5 ([sample_cu], [sample_cu]) =
     Value (DW_DLV_OK, Some 0x30, ([sample_cu], [sample_cu]))"
  using get_addr_from_source_line_first [OF sample_headers, where src = "''/src/b.c''" and fuel = 2 and n = 5]
  by (simp add: sample_cu_facts forest_rows sample_rows_def)

text \<open>
  Claim C19. \<open>get_line_no_from_addr\<close>, when libdwarf can read everything and the table is sorted:
  the number of the last row at or below the address in the last unit that covers it. An address
  below all rows gives \<open>DW_DLV_ERROR\<close>, although no libdwarf call failed and no error object was
  made.
\<close>

theorem get_line_no_from_addr_last:
  assumes "die_forest lib repr" "headers (next_cu_header lib) h ds h'" "length ds < fuel"
    and "last_of (\<lambda>d. covers a (hd (repr d))) None ds = Some d"
    and "get_line_iterator lib (Some d) = (DW_DLV_OK, it)" "rows_ok lib (dw_lines it)"
    and "sorted (map (addr_of lib) (dw_lines it))"
  shows "get_line_no_from_addr fuel lib a h =
    (case rows_upto lib a (dw_lines it) of
       0 \<Rightarrow> Value (DW_DLV_ERROR, None, h')
     | Suc i \<Rightarrow> Value (DW_DLV_OK, Some (snd (lineno lib (dw_lines it ! i))), h'))"
proof -
  let ?n = "rows_upto lib a (dw_lines it)"
  note forest_verdict [OF assms(1)]
  with by_addr.scan_last [OF assms(2) _ assms(3), of a None] assms(4)
  have cu: "get_cu_from_addr fuel lib a h = Value (DW_DLV_NO_ENTRY, Some d, h')"
    by (simp add: get_cu_from_addr_def)
  have n: "?n \<le> length (dw_lines it)" by (simp add: rows_upto_def length_takeWhile_le)
  then have "search_loop lib (dw_lines it) a 0 (line_count it - 1) = (DW_DLV_OK, int ?n - 1)"
    by (intro search_loop_finds assms(6,7)) (auto simp: line_count_def)
  then have s: "search_addr_in_lines lib (attach_cu_die it c) a =
      (case ?n of 0 \<Rightarrow> (DW_DLV_NO_ENTRY, None) | Suc i \<Rightarrow> (DW_DLV_OK, Some (int i)))" for c
    by (simp add: search_addr_in_lines_def attach_cu_die_def line_count_def split: nat.split)
  show ?thesis
  proof (cases ?n)
    case 0
    with cu s assms(5) show ?thesis by (simp add: get_line_no_from_addr_def)
  next
    case (Suc i)
    with n assms(6) have "fst (lineno lib (dw_lines it ! i)) = DW_DLV_OK" by (simp add: rows_ok_def)
    with Suc cu s assms(5) show ?thesis by (simp add: get_line_no_from_addr_def case_prod_beta)
  qed
qed

theorem get_line_no_from_addr_last_witness:
  "get_line_no_from_addr 2 forest_lib 0x2a ([sample_cu], [sample_cu]) =
     Value (DW_DLV_OK, Some 4, ([sample_cu], [sample_cu]))"
  using get_line_no_from_addr_last [OF forest_lib_forest sample_headers, where fuel = 2 and a = "0x2a"]
  by (simp add: sample_cu_facts tree_repr_def forest_rows rows_upto_def sample_rows_def)

end
