(* ===== verification/Breakpoints.thy ===== *)
theory Breakpoints
  imports Tracee Line_Table
begin

section \<open>Breakpoints (\<^verbatim>\<open>debugger/debugger.c\<close>)\<close>

text \<open>
  The breakpoint records, the map they are kept in, and the commands that enable and disable them.
  The hash map is a submodule of the repository that is not part of it, so it is a parameter: a
  record of its three operations, over maps \<open>'m\<close>; \<open>hashmap_ok\<close> states its documented laws for the
  comparison and the hash the program gives it. Allocation succeeds and freeing is not modelled.
\<close>

subsection \<open>Records and their map\<close>

record Breakpoint =
  mem_addr :: WORD
  saved_data :: WORD
  enabled :: bool
  temporary_enable :: bool

record 'm hashmap =
  hashmap_get :: "'m \<Rightarrow> Breakpoint \<Rightarrow> Breakpoint option"
  hashmap_set :: "'m \<Rightarrow> Breakpoint \<Rightarrow> 'm"
  hashmap_delete :: "'m \<Rightarrow> Breakpoint \<Rightarrow> 'm"

definition make_breakpoint :: "WORD \<Rightarrow> Breakpoint" where
  "make_breakpoint memAddr =
     \<lparr>mem_addr = memAddr, saved_data = 0, enabled = False, temporary_enable = False\<rparr>"

text \<open>
  \<open>copy_breakpoint\<close> falls off its end without a return value when it has copied: the value the
  caller sees is the indeterminate \<open>ret\<close>. It copies three fields; the fourth is assigned to itself.
\<close>

definition copy_breakpoint :: "C_int \<Rightarrow> Breakpoint \<Rightarrow> Breakpoint option \<Rightarrow> C_int \<times> Breakpoint" where
  "copy_breakpoint ret dest src = (case src of
     None \<Rightarrow> (1, dest)
   | Some s \<Rightarrow> (ret, dest\<lparr>enabled := enabled s, mem_addr := mem_addr s, saved_data := saved_data s,
       temporary_enable := temporary_enable dest\<rparr>))"

definition get_breakpoint_at_addr :: "C_int \<Rightarrow> 'm hashmap \<Rightarrow> ('k, 'm, 'h, 'z) Debugger_scheme \<Rightarrow> WORD
    \<Rightarrow> C_int \<times> Breakpoint" where
  "get_breakpoint_at_addr ret hm dbg memAddr =
    (let breakpoint = make_breakpoint memAddr;
         bp_in_map = hashmap_get hm (breakpoints dbg) breakpoint
     in case copy_breakpoint ret breakpoint bp_in_map of (r, breakpoint) \<Rightarrow>
          if r \<noteq> 0 then (KEY_NOT_EXISTS, breakpoint) else (0, breakpoint))"

definition save_breakpoint :: "'m hashmap \<Rightarrow> ('k, 'm, 'h, 'z) Debugger_scheme \<Rightarrow> Breakpoint
    \<Rightarrow> C_int \<times> ('k, 'm, 'h, 'z) Debugger_scheme" where
  "save_breakpoint hm dbg bp = (0, dbg\<lparr>breakpoints := hashmap_set hm (breakpoints dbg) bp\<rparr>)"

definition delete_breakpoint :: "'m hashmap \<Rightarrow> ('k, 'm, 'h, 'z) Debugger_scheme \<Rightarrow> Breakpoint
    \<Rightarrow> C_int \<times> ('k, 'm, 'h, 'z) Debugger_scheme" where
  "delete_breakpoint hm dbg bp = (0, dbg\<lparr>breakpoints := hashmap_delete hm (breakpoints dbg) bp\<rparr>)"

definition breakpoint_cmp :: "Breakpoint \<Rightarrow> Breakpoint \<Rightarrow> C_int" where
  "breakpoint_cmp memA memB = (if mem_addr memA \<noteq> mem_addr memB then 1 else 0)"

text \<open>The hash is the library's murmur hash of the eight bytes of the address.\<close>

definition breakpoint_hash :: "(byte list \<Rightarrow> UWORD \<Rightarrow> UWORD \<Rightarrow> UWORD) \<Rightarrow> Breakpoint \<Rightarrow> UWORD \<Rightarrow> UWORD \<Rightarrow> UWORD" where
  "breakpoint_hash hashmap_murmur memA seed0 seed1 =
     hashmap_murmur (map (byte_of (mem_addr memA)) [0..<8]) seed0 seed1"

subsection \<open>Patching the code\<close>

text \<open>The code, the breakpoint record as it is left, and the state.\<close>

definition enable_breakpoint :: "'k tracer \<Rightarrow> ('k, 'm, 'h, 'z) Debugger_scheme \<Rightarrow> Breakpoint
    \<Rightarrow> C_int \<times> Breakpoint \<times> ('k, 'm, 'h, 'z) Debugger_scheme" where
  "enable_breakpoint tr dbg bp =
    (case ptrace_peek_data tr dbg (mem_addr bp) of (res, d) \<Rightarrow>
       if res \<noteq> 0 then (res, bp, dbg)
       else
         let bp = bp\<lparr>saved_data := d\<rparr>;
             d = (d AND NOT 0xff) OR 0xcc
         in case tr_poke tr (tracee dbg) (mem_addr bp) d of (r, k) \<Rightarrow>
           if r = -1 then (PTRACE_ERROR, bp, dbg\<lparr>tracee := k\<rparr>)
           else (0, bp\<lparr>enabled := True\<rparr>, dbg\<lparr>tracee := k\<rparr>))"

definition disable_breakpoint :: "'k tracer \<Rightarrow> ('k, 'm, 'h, 'z) Debugger_scheme \<Rightarrow> Breakpoint
    \<Rightarrow> C_int \<times> Breakpoint \<times> ('k, 'm, 'h, 'z) Debugger_scheme" where
  "disable_breakpoint tr dbg bp =
    (case tr_poke tr (tracee dbg) (mem_addr bp) (saved_data bp) of (r, k) \<Rightarrow>
       if r = -1 then (PTRACE_ERROR, bp, dbg\<lparr>tracee := k\<rparr>)
       else (0, bp\<lparr>enabled := False\<rparr>, dbg\<lparr>tracee := k\<rparr>))"

subsection \<open>The command\<close>

definition run_of :: "'a option \<Rightarrow> 'a run" where
  "run_of x = (case x of None \<Rightarrow> Crash_run | Some a \<Rightarrow> Value a)"

text \<open>The next token of a command: its offset in the buffer and its text.\<close>

definition take_token :: "Buffer \<Rightarrow> (nat option \<times> string option \<times> Buffer) run" where
  "take_token buffer = run_bind (run_of (next_token buffer)) (\<lambda>(t, buffer).
     run_bind (run_of (tok_str buffer t)) (\<lambda>s. Value (t, s, buffer)))"

text \<open>The second half of \<open>handle_breakpoint\<close>: the look-up and the switch on the action.\<close>

definition apply_breakpoint :: "C_int \<Rightarrow> 'k tracer \<Rightarrow> 'm hashmap \<Rightarrow> ('k, 'm, 'h, 'z) Debugger_scheme
    \<Rightarrow> BREAKPOINT_OPTIONS \<Rightarrow> WORD \<Rightarrow> C_int \<times> ('k, 'm, 'h, 'z) Debugger_scheme" where
  "apply_breakpoint ret tr hm dbg action arg =
    (case get_breakpoint_at_addr ret hm dbg arg of (res, breakpoint) \<Rightarrow>
       if res \<noteq> 0 \<and> res \<noteq> KEY_NOT_EXISTS then (res, dbg)
       else if action = ENABLE_BREAKPOINT then
         (case enable_breakpoint tr dbg breakpoint of (res, breakpoint, dbg) \<Rightarrow>
            if res \<noteq> 0 then (1, dbg) else save_breakpoint hm dbg breakpoint)
       else if action = DISABLE_BREAKPOINT then
         (case disable_breakpoint tr dbg breakpoint of (res, breakpoint, dbg) \<Rightarrow>
            if res \<noteq> 0 then (1, dbg) else delete_breakpoint hm dbg breakpoint)
       else (res, dbg))"

text \<open>The text of libdwarf's error is not modelled; the printed argument stands for it.\<close>

definition handle_breakpoint :: "C_int \<Rightarrow> nat \<Rightarrow> 'k tracer \<Rightarrow> 'm hashmap \<Rightarrow> ('h, 'd, 'c, 'l, 'y) dwarf_lib_scheme
    \<Rightarrow> ('k, 'm, 'h, 'z) Debugger_scheme \<Rightarrow> Buffer \<Rightarrow> (C_int \<times> ('k, 'm, 'h, 'z) Debugger_scheme) run" where
  "handle_breakpoint ret fuel tr hm lib dbg buffer =
    run_bind (take_token buffer) (\<lambda>(_, s1, buffer).
    run_bind (take_token buffer) (\<lambda>(_, s2, buffer).
      let action = match_breakpoint_option s1; mode = match_breakpoint_option s2 in
      if action = INVALID_BREAKPOINT_OPT \<or> mode = INVALID_BREAKPOINT_OPT then Value (1, dbg)
      else run_bind (take_token buffer) (\<lambda>(_, argToken, buffer).
        case argToken of None \<Rightarrow> Value (1, dbg)
        | Some argToken \<Rightarrow>
          if mode = BREAKPOINT_ARG_MEMADDR then
            (case strtoll 16 argToken of (arg, argEnd) \<Rightarrow>
               if argEnd \<noteq> [] then Value (INVALID_COMMAND, dbg)
               else Value (apply_breakpoint ret tr hm dbg action (word_of_int arg + load_address dbg)))
          else if mode = BREAKPOINT_ARG_LINENUM then
            run_bind (take_token buffer) (\<lambda>(_, s4, buffer).
              case s4 of None \<Rightarrow> Crash_run
              | Some s4 \<Rightarrow>
                (case strtoll 10 s4 of (arg, argEnd) \<Rightarrow>
                   if argEnd \<noteq> [] then Value (INVALID_COMMAND, dbg)
                   else run_bind (get_addr_from_source_line fuel lib argToken (word_of_int arg) (dwarf_dbg dbg))
                     (\<lambda>(res, a, h).
                       let dbg = dbg\<lparr>dwarf_dbg := h\<rparr> in
                       if res = DW_DLV_ERROR then Value (1, fprintf ''error:%s'' [OStr ''dwarf_errmsg''] dbg)
                       else (case a of
                           None \<Rightarrow> Value (1, fprintf ''noentry'' [] dbg)
                         | Some a \<Rightarrow>
                             if res \<noteq> DW_DLV_OK then Value (1, fprintf ''noentry'' [] dbg)
                             else Value (apply_breakpoint ret tr hm dbg action (a + load_address dbg))))))
          else Value (INVALID_COMMAND, dbg))))"


subsection \<open>Laws of the hash map\<close>

definition hashmap_ok :: "'m hashmap \<Rightarrow> bool" where
  "hashmap_ok hm \<longleftrightarrow> (\<forall>m b k.
     hashmap_get hm (hashmap_set hm m b) k = (if breakpoint_cmp b k = 0 then Some b else hashmap_get hm m k)
     \<and> hashmap_get hm (hashmap_delete hm m b) k = (if breakpoint_cmp b k = 0 then None else hashmap_get hm m k)
     \<and> (breakpoint_cmp b k = 0 \<longrightarrow> hashmap_get hm m b = hashmap_get hm m k))"

lemma hashmap_okD:
  assumes "hashmap_ok hm"
  shows "hashmap_get hm (hashmap_set hm m b) k = (if mem_addr b = mem_addr k then Some b else hashmap_get hm m k)"
    "hashmap_get hm (hashmap_delete hm m b) k = (if mem_addr b = mem_addr k then None else hashmap_get hm m k)"
proof -
  have "hashmap_get hm (hashmap_set hm m b) k = (if breakpoint_cmp b k = 0 then Some b else hashmap_get hm m k)"
    "hashmap_get hm (hashmap_delete hm m b) k = (if breakpoint_cmp b k = 0 then None else hashmap_get hm m k)"
    using assms unfolding hashmap_ok_def by blast+
  then show "hashmap_get hm (hashmap_set hm m b) k = (if mem_addr b = mem_addr k then Some b else hashmap_get hm m k)"
    "hashmap_get hm (hashmap_delete hm m b) k = (if mem_addr b = mem_addr k then None else hashmap_get hm m k)"
    by (simp_all add: breakpoint_cmp_def)
qed

definition map_hm :: "(WORD \<Rightarrow> Breakpoint option) hashmap" where
  "map_hm = \<lparr>hashmap_get = (\<lambda>m k. m (mem_addr k)), hashmap_set = (\<lambda>m b. m(mem_addr b \<mapsto> b)),
     hashmap_delete = (\<lambda>m b. m(mem_addr b := None))\<rparr>"

lemma map_hm_ok: "hashmap_ok map_hm"
  by (auto simp: hashmap_ok_def map_hm_def breakpoint_cmp_def)

text \<open>
  The hash and the comparison fit together, as the hash map requires: breakpoints that
  compare equal have the same hash for all seeds.
\<close>

theorem breakpoint_hash_consistent:
  assumes "breakpoint_cmp a b = 0"
  shows "breakpoint_hash murmur a seed0 seed1 = breakpoint_hash murmur b seed0 seed1"
  using assms by (simp add: breakpoint_cmp_def breakpoint_hash_def split: if_splits)

theorem breakpoint_hash_consistent_witness:
  "\<forall>murmur. breakpoint_hash murmur (make_breakpoint 5) 1 2 = breakpoint_hash murmur ((make_breakpoint 5)\<lparr>enabled := True\<rparr>) 1 2"
proof
  fix murmur
  have "breakpoint_cmp (make_breakpoint 5) ((make_breakpoint 5)\<lparr>enabled := True\<rparr>) = 0"
    by (simp add: breakpoint_cmp_def make_breakpoint_def)
  then show "breakpoint_hash murmur (make_breakpoint 5) 1 2 = breakpoint_hash murmur ((make_breakpoint 5)\<lparr>enabled := True\<rparr>) 1 2"
    by (rule breakpoint_hash_consistent)
qed

text \<open>
  Whatever the missing return value happens to be, \<open>get_breakpoint_at_addr\<close> returns 0,
  also when there is no breakpoint (\<open>KEY_NOT_EXISTS\<close> is 0 itself), and gives the stored
  breakpoint without its temporary mark, or a fresh disabled one.
\<close>

theorem get_breakpoint_result:
  "get_breakpoint_at_addr ret hm dbg a =
    (0, case hashmap_get hm (breakpoints dbg) (make_breakpoint a) of
          None \<Rightarrow> make_breakpoint a | Some b \<Rightarrow> b\<lparr>temporary_enable := False\<rparr>)"
  by (cases "hashmap_get hm (breakpoints dbg) (make_breakpoint a)")
     (auto simp: get_breakpoint_at_addr_def copy_breakpoint_def make_breakpoint_def Let_def)

lemma get_breakpoint_eq [dbg_ops]:
  "get_breakpoint_at_addr ret hm dbg a =
    (0, case hashmap_get hm (breakpoints dbg) (make_breakpoint a) of
          None \<Rightarrow> make_breakpoint a | Some b \<Rightarrow> b\<lparr>temporary_enable := False\<rparr>)"
  by (cases "hashmap_get hm (breakpoints dbg) (make_breakpoint a)")
     (auto simp: get_breakpoint_at_addr_def copy_breakpoint_def make_breakpoint_def Let_def)

subsection \<open>Patched memory\<close>

text \<open>The word that is written changes only its lowest byte.\<close>

lemma bit_0xff: "bit (0xff :: UWORD) n \<longleftrightarrow> n < 8"
proof -
  have "(0xff :: UWORD) = mask 8" by (simp add: mask_eq_exp_minus_1)
  then show ?thesis by (simp only: bit_mask_iff) auto
qed

lemma patch_byte:
  "j < 8 \<Longrightarrow> byte_of ((d AND NOT 0xff) OR 0xcc) j = (if j = 0 then 0xcc else byte_of d j)"
proof -
  assume "j < 8"
  have c: "ucast (0xcc :: UWORD) = (0xcc :: byte)" by simp
  have low: "\<not> bit (0xcc :: UWORD) n" if "8 \<le> n" for n
  proof -
    have "(0xcc :: UWORD) = take_bit 8 0xcc" by simp
    then show ?thesis using that by (metis bit_take_bit_iff linorder_not_le)
  qed
  have "bit (0xcc :: byte) n = bit (0xcc :: UWORD) n" if "n < 8" for n
    using that arg_cong [OF c, of "\<lambda>w. bit w n"] by (simp only: bit_unsigned_iff) simp
  moreover have "bit ((d AND NOT 0xff) OR 0xcc) n = (if n < 8 then bit (0xcc :: UWORD) n else bit d n)" for n
    using bit_0xff [of n] low [of n] bit_imp_le_length [of d n]
    by (cases "n < 8") (auto simp only: bit_or_iff bit_and_iff bit_not_iff, auto)
  ultimately show ?thesis using \<open>j < 8\<close>
    by (intro bit_word_eqI, cases "j = 0") (simp_all only: bit_byte_of if_True if_False, simp_all)
qed

lemma enable_run:
  assumes P: "process_ok tr mem regs"
  shows "\<exists>k d. enable_breakpoint tr dbg bp = (0, bp\<lparr>saved_data := d, enabled := True\<rparr>, dbg\<lparr>tracee := k\<rparr>)
    \<and> (\<forall>j<8. byte_of d j = mem (tracee dbg) (mem_addr bp + of_nat j))
    \<and> (\<forall>x. mem k x = (if x = mem_addr bp then 0xcc else mem (tracee dbg) x)) \<and> regs k = regs (tracee dbg)"
proof -
  note D = process_okD [OF P]
  let ?k = "tracee dbg" and ?a = "mem_addr bp"
  define d where "d = fst (tr_peek tr ?k ?a)"
  define k where "k = snd (tr_poke tr ?k ?a ((d AND NOT 0xff) OR 0xcc))"
  have k: "tr_poke tr ?k ?a ((d AND NOT 0xff) OR 0xcc) = (0, k)"
    by (simp add: k_def prod_eq_iff D(3))
  have p: "tr_peek tr ?k ?a = (d, False)" using D(1) [of ?k ?a] by (simp add: d_def prod_eq_iff)
  have d: "byte_of d j = mem ?k (?a + of_nat j)" if "j < 8" for j
    using D(2) [OF that, of ?k ?a] by (simp add: d_def)
  have "mem k x = (if x = ?a then 0xcc else mem ?k x)" for x
  proof (cases "x - ?a < 8")
    case True
    then have n: "unat (x - ?a) < 8" "?a + of_nat (unat (x - ?a)) = x" by (simp_all add: word_less_nat_alt)
    have z: "unat (x - ?a) = 0 \<longleftrightarrow> x = ?a" by (simp add: unat_eq_0)
    have "mem k x = byte_of ((d AND NOT 0xff) OR 0xcc) (unat (x - ?a))"
      using D(5) [of ?k ?a "(d AND NOT 0xff) OR 0xcc" x] True by (simp add: k_def)
    with patch_byte [OF n(1), of d] d [OF n(1)] n(2) z show ?thesis by simp
  next
    case False
    then have "x \<noteq> ?a" by auto
    with False show ?thesis using D(5) [of ?k ?a "(d AND NOT 0xff) OR 0xcc" x] by (simp add: k_def)
  qed
  moreover have "regs k = regs ?k" using D(4) by (simp add: k_def)
  ultimately show ?thesis using d k p
    by (intro exI [of _ k] exI [of _ d]) (simp add: enable_breakpoint_def ptrace_peek_data_def)
qed

lemma disable_run:
  assumes P: "process_ok tr mem regs"
  shows "\<exists>k. disable_breakpoint tr dbg bp = (0, bp\<lparr>enabled := False\<rparr>, dbg\<lparr>tracee := k\<rparr>)
    \<and> (\<forall>x. mem k x = (if x - mem_addr bp < 8 then byte_of (saved_data bp) (unat (x - mem_addr bp))
          else mem (tracee dbg) x)) \<and> regs k = regs (tracee dbg)"
proof -
  note D = process_okD [OF P]
  define k where "k = snd (tr_poke tr (tracee dbg) (mem_addr bp) (saved_data bp))"
  then have "tr_poke tr (tracee dbg) (mem_addr bp) (saved_data bp) = (0, k)"
    by (simp add: prod_eq_iff D(3))
  moreover have "mem k x = (if x - mem_addr bp < 8 then byte_of (saved_data bp) (unat (x - mem_addr bp))
      else mem (tracee dbg) x)" "regs k = regs (tracee dbg)" for x
    unfolding k_def by (rule D(5), rule D(4))
  ultimately show ?thesis
    by (intro exI [of _ k]) (simp add: disable_breakpoint_def)
qed


text \<open>
  The abstraction: a set \<open>S\<close> of addresses. The code (the memory at the addresses \<open>C\<close>) is the
  original one with \<open>0xCC\<close> at the addresses of \<open>S\<close>, and the map holds exactly the breakpoints of
  \<open>S\<close>, enabled, each with the original bytes of its word. Breakpoints are \<open>spaced\<close> when their
  words do not overlap; \<open>word_in C a\<close> says that the word at \<open>a\<close> belongs to the code.
\<close>

definition bp_entry :: "(addr \<Rightarrow> byte) \<Rightarrow> addr set \<Rightarrow> addr \<Rightarrow> Breakpoint option \<Rightarrow> bool" where
  "bp_entry orig S a r = (case r of
     None \<Rightarrow> a \<notin> S
   | Some b \<Rightarrow> a \<in> S \<and> mem_addr b = a \<and> enabled b
       \<and> (\<forall>j<8. byte_of (saved_data b) j = orig (a + of_nat j)))"

definition word_in :: "addr set \<Rightarrow> addr \<Rightarrow> bool" where
  "word_in C a \<longleftrightarrow> (\<forall>j<8. a + of_nat j \<in> C)"

definition code_patched :: "('k \<Rightarrow> addr \<Rightarrow> byte) \<Rightarrow> addr set \<Rightarrow> (addr \<Rightarrow> byte) \<Rightarrow> addr set \<Rightarrow> 'k \<Rightarrow> bool" where
  "code_patched mem C orig M k \<longleftrightarrow> (\<forall>x\<in>C. mem k x = (if x \<in> M then 0xcc else orig x))"

definition bp_inv :: "'m hashmap \<Rightarrow> ('k \<Rightarrow> addr \<Rightarrow> byte) \<Rightarrow> addr set \<Rightarrow> (addr \<Rightarrow> byte) \<Rightarrow> addr set
    \<Rightarrow> ('k, 'm, 'h, 'z) Debugger_scheme \<Rightarrow> bool" where
  "bp_inv hm mem C orig S dbg \<longleftrightarrow> code_patched mem C orig S (tracee dbg) \<and>
     (\<forall>a. bp_entry orig S a (hashmap_get hm (breakpoints dbg) (make_breakpoint a)))"

lemma bp_invI:
  "(\<And>x. x \<in> C \<Longrightarrow> mem (tracee dbg) x = (if x \<in> S then 0xcc else orig x)) \<Longrightarrow>
   (\<And>a. bp_entry orig S a (hashmap_get hm (breakpoints dbg) (make_breakpoint a))) \<Longrightarrow>
   bp_inv hm mem C orig S dbg"
  by (simp add: bp_inv_def code_patched_def)

lemma bp_inv_entry:
  "bp_inv hm mem C orig S dbg \<Longrightarrow> bp_entry orig S a (hashmap_get hm (breakpoints dbg) (make_breakpoint a))"
  by (simp add: bp_inv_def)

definition spaced :: "addr set \<Rightarrow> bool" where
  "spaced S \<longleftrightarrow> (\<forall>x\<in>S. \<forall>y\<in>S. x \<noteq> y \<longrightarrow> 8 \<le> y - x)"

lemma near_offset: "x - a < (8 :: addr) \<Longrightarrow> unat (x - a) < 8 \<and> a + of_nat (unat (x - a)) = x"
  by (simp add: word_less_nat_alt)

lemma offset_near: "j < 8 \<Longrightarrow> (a + of_nat j) - a < (8 :: addr)"
  by (simp add: word_less_nat_alt unat_of_nat take_bit_nat_eq_self)

lemma bp_inv_mem: "bp_inv hm mem C orig S dbg \<Longrightarrow> x \<in> C \<Longrightarrow> mem (tracee dbg) x = (if x \<in> S then 0xcc else orig x)"
  by (simp add: bp_inv_def code_patched_def)

lemma bp_inv_get:
  assumes "bp_inv hm mem C orig S dbg"
  shows "a \<notin> S \<Longrightarrow> hashmap_get hm (breakpoints dbg) (make_breakpoint a) = None"
    and "a \<in> S \<Longrightarrow> \<exists>b. hashmap_get hm (breakpoints dbg) (make_breakpoint a) = Some b \<and> mem_addr b = a
       \<and> enabled b \<and> (\<forall>j<8. byte_of (saved_data b) j = orig (a + of_nat j))"
  using bp_inv_entry [OF assms, of a] by (auto simp: bp_entry_def split: option.splits)

lemma make_breakpoint_simps [simp]:
  "mem_addr (make_breakpoint a) = a" "saved_data (make_breakpoint a) = 0"
  "enabled (make_breakpoint a) = False" "temporary_enable (make_breakpoint a) = False"
  by (simp_all add: make_breakpoint_def)

lemma enable_save:
  assumes P: "process_ok tr mem regs" and H: "hashmap_ok hm"
    and inv: "bp_inv hm mem C orig S dbg" and a: "a \<notin> S" "spaced (insert a S)" "word_in C a"
    and bp: "mem_addr bp = a"
  shows "\<exists>bp' dbg1 dbg2. enable_breakpoint tr dbg bp = (0, bp', dbg1) \<and> save_breakpoint hm dbg1 bp' = (0, dbg2)
    \<and> bp_inv hm mem C orig (insert a S) dbg2 \<and> regs (tracee dbg2) = regs (tracee dbg)
    \<and> load_address dbg2 = load_address dbg"
proof -
  from enable_run [OF P, of dbg bp] obtain k d where
    e: "enable_breakpoint tr dbg bp = (0, bp\<lparr>saved_data := d, enabled := True\<rparr>, dbg\<lparr>tracee := k\<rparr>)"
    and d: "\<And>j. j < 8 \<Longrightarrow> byte_of d j = mem (tracee dbg) (a + of_nat j)"
    and k: "\<And>x. mem k x = (if x = a then 0xcc else mem (tracee dbg) x)" "regs k = regs (tracee dbg)"
    using bp by auto
  let ?b = "bp\<lparr>saved_data := d, enabled := True\<rparr>"
  let ?dbg = "dbg\<lparr>tracee := k, breakpoints := hashmap_set hm (breakpoints dbg) ?b\<rparr>"
  have orig: "byte_of d j = orig (a + of_nat j)" if "j < 8" for j
  proof -
    have "a + of_nat j \<notin> S"
      using a offset_near [OF that, of a] unfolding spaced_def
      by (metis add.right_neutral add_diff_cancel_left' insertCI leD)
    then show ?thesis using d [OF that] bp_inv_mem [OF inv] a(3) that by (simp add: word_in_def)
  qed
  have "bp_inv hm mem C orig (insert a S) ?dbg"
  proof (rule bp_invI)
    show "bp_entry orig (insert a S) x (hashmap_get hm (breakpoints ?dbg) (make_breakpoint x))" for x
      using bp_inv_entry [OF inv, of x] bp
      by (auto simp: bp_entry_def hashmap_okD [OF H] orig split: option.splits)
  qed (simp add: k bp_inv_mem [OF inv])
  with e k(2) show ?thesis by (auto simp: save_breakpoint_def)
qed

lemma enable_new:
  assumes P: "process_ok tr mem regs" and H: "hashmap_ok hm"
    and inv: "bp_inv hm mem C orig S dbg" and a: "a \<notin> S" "spaced (insert a S)" "word_in C a"
  shows "\<exists>dbg'. apply_breakpoint ret tr hm dbg ENABLE_BREAKPOINT a = (0, dbg')
    \<and> bp_inv hm mem C orig (insert a S) dbg' \<and> regs (tracee dbg') = regs (tracee dbg)"
  using enable_save [OF P H inv a make_breakpoint_simps(1)] bp_inv_get(1) [OF inv a(1)]
  by (auto simp: apply_breakpoint_def get_breakpoint_eq)

lemma disable_old:
  assumes P: "process_ok tr mem regs" and H: "hashmap_ok hm"
    and inv: "bp_inv hm mem C orig S dbg" and a: "a \<in> S" "spaced S"
  shows "\<exists>dbg'. apply_breakpoint ret tr hm dbg DISABLE_BREAKPOINT a = (0, dbg')
    \<and> bp_inv hm mem C orig (S - {a}) dbg' \<and> regs (tracee dbg') = regs (tracee dbg)"
proof -
  from bp_inv_get(2) [OF inv a(1)] obtain b where
    b: "hashmap_get hm (breakpoints dbg) (make_breakpoint a) = Some b" "mem_addr b = a"
      "\<And>j. j < 8 \<Longrightarrow> byte_of (saved_data b) j = orig (a + of_nat j)" by auto
  let ?b = "b\<lparr>temporary_enable := False\<rparr>"
  from disable_run [OF P, of dbg ?b] obtain k where
    e: "disable_breakpoint tr dbg ?b = (0, ?b\<lparr>enabled := False\<rparr>, dbg\<lparr>tracee := k\<rparr>)"
    and k: "\<And>x. mem k x = (if x - a < 8 then byte_of (saved_data b) (unat (x - a)) else mem (tracee dbg) x)"
      "regs k = regs (tracee dbg)" using b(2) by auto
  let ?dbg = "dbg\<lparr>tracee := k, breakpoints := hashmap_delete hm (breakpoints dbg) (?b\<lparr>enabled := False\<rparr>)\<rparr>"
  have run: "apply_breakpoint ret tr hm dbg DISABLE_BREAKPOINT a = (0, ?dbg)"
    using b(1) e by (simp add: apply_breakpoint_def get_breakpoint_eq delete_breakpoint_def)
  have mem: "mem k x = (if x \<in> S - {a} then 0xcc else orig x)" if "x \<in> C" for x
  proof (cases "x - a < 8")
    case True
    then have "x \<notin> S - {a}" using a unfolding spaced_def by (metis DiffD1 DiffD2 leD singletonI)
    moreover have "mem k x = orig x" using True k(1) [of x] b(3) near_offset [OF True] by simp
    ultimately show ?thesis by (simp only: if_False)
  next
    case False
    then have "x \<noteq> a" by auto
    with False k(1) bp_inv_mem [OF inv that] show ?thesis by simp
  qed
  have "bp_inv hm mem C orig (S - {a}) ?dbg"
  proof (rule bp_invI)
    show "bp_entry orig (S - {a}) x (hashmap_get hm (breakpoints ?dbg) (make_breakpoint x))" for x
      using bp_inv_entry [OF inv, of x] b(2) by (auto simp: bp_entry_def hashmap_okD [OF H] split: option.splits)
  qed (simp add: mem)
  with run k(2) show ?thesis by auto
qed

text \<open>
  Claim C10. The breakpoint commands implement the set of breakpoints: as long as the words of the
  breakpoints do not overlap, enabling a new one and disabling an old one succeed, change the set
  by that address, and leave every other byte of the process and its registers as they were.
\<close>

theorem breakpoint_commands_refine:
  assumes "process_ok tr mem regs" "hashmap_ok hm" "bp_inv hm mem C orig S dbg" "spaced (insert a S)" "word_in C a"
  shows "\<exists>dbg'. apply_breakpoint ret tr hm dbg (if a \<in> S then DISABLE_BREAKPOINT else ENABLE_BREAKPOINT) a = (0, dbg')
    \<and> bp_inv hm mem C orig (if a \<in> S then S - {a} else insert a S) dbg'
    \<and> regs (tracee dbg') = regs (tracee dbg)"
  using enable_new [OF assms(1-3)] disable_old [OF assms(1-3)] assms(4,5)
  by (cases "a \<in> S") (simp_all add: insert_absorb)

lemma sim_bp_inv: "bp_inv map_hm sim_mem UNIV (\<lambda>_. 0x90) {} (sim_dbg (\<lambda>_. None) ())"
  by (simp add: bp_inv_def code_patched_def bp_entry_def sim_dbg_def sim_start_def map_hm_def)

theorem breakpoint_commands_refine_witness:
  "\<exists>dbg'. apply_breakpoint 7 sim_tracer map_hm (sim_dbg (\<lambda>_. None) ()) ENABLE_BREAKPOINT 0x1010 = (0, dbg')
     \<and> sim_mem (tracee dbg') 0x1010 = 0xcc \<and> sim_mem (tracee dbg') 0x1011 = 0x90"
proof -
  have sp: "spaced (insert 0x1010 {})" "word_in UNIV 0x1010" by (simp_all add: spaced_def word_in_def)
  from breakpoint_commands_refine [OF sim_process map_hm_ok sim_bp_inv sp, of 7] obtain dbg' where
    "apply_breakpoint 7 sim_tracer map_hm (sim_dbg (\<lambda>_. None) ()) ENABLE_BREAKPOINT 0x1010 = (0, dbg')"
    "bp_inv map_hm sim_mem UNIV (\<lambda>_. 0x90) {0x1010} dbg'" by auto
  then show ?thesis by (simp add: bp_inv_mem)
qed


subsection \<open>Where the commands do not implement the set\<close>

lemma enable_apply:
  assumes P: "process_ok tr mem regs" and g: "get_breakpoint_at_addr ret hm dbg a = (0, bp)" "mem_addr bp = a"
  shows "\<exists>k d. apply_breakpoint ret tr hm dbg ENABLE_BREAKPOINT a =
      (0, dbg\<lparr>tracee := k, breakpoints := hashmap_set hm (breakpoints dbg) (bp\<lparr>saved_data := d, enabled := True\<rparr>)\<rparr>)
    \<and> (\<forall>j<8. byte_of d j = mem (tracee dbg) (a + of_nat j))
    \<and> (\<forall>x. mem k x = (if x = a then 0xcc else mem (tracee dbg) x))"
proof -
  from enable_run [OF P, of dbg bp] obtain k d where
    "enable_breakpoint tr dbg bp = (0, bp\<lparr>saved_data := d, enabled := True\<rparr>, dbg\<lparr>tracee := k\<rparr>)"
    "\<forall>j<8. byte_of d j = mem (tracee dbg) (mem_addr bp + of_nat j)"
    "\<forall>x. mem k x = (if x = mem_addr bp then 0xcc else mem (tracee dbg) x)" by blast
  with g show ?thesis
    by (intro exI [of _ k] exI [of _ d]) (simp add: apply_breakpoint_def save_breakpoint_def)
qed

lemma disable_apply:
  assumes P: "process_ok tr mem regs" and H: "hashmap_ok hm"
    and g: "hashmap_get hm (breakpoints dbg) (make_breakpoint a) = Some b" "mem_addr b = a"
  shows "\<exists>dbg'. apply_breakpoint ret tr hm dbg DISABLE_BREAKPOINT a = (0, dbg')
    \<and> (\<forall>x. mem (tracee dbg') x =
         (if x - a < 8 then byte_of (saved_data b) (unat (x - a)) else mem (tracee dbg) x))
    \<and> hashmap_get hm (breakpoints dbg') (make_breakpoint a) = None
    \<and> (\<forall>x. x \<noteq> a \<longrightarrow> hashmap_get hm (breakpoints dbg') (make_breakpoint x)
         = hashmap_get hm (breakpoints dbg) (make_breakpoint x))"
proof -
  let ?b = "b\<lparr>temporary_enable := False\<rparr>"
  from disable_run [OF P, of dbg ?b] obtain k where
    e: "disable_breakpoint tr dbg ?b = (0, ?b\<lparr>enabled := False\<rparr>, dbg\<lparr>tracee := k\<rparr>)"
    and k: "\<And>x. mem k x = (if x - a < 8 then byte_of (saved_data b) (unat (x - a)) else mem (tracee dbg) x)"
    using g(2) by auto
  have "apply_breakpoint ret tr hm dbg DISABLE_BREAKPOINT a =
      (0, dbg\<lparr>tracee := k, breakpoints := hashmap_delete hm (breakpoints dbg) (?b\<lparr>enabled := False\<rparr>)\<rparr>)"
    using g(1) e by (simp add: apply_breakpoint_def get_breakpoint_eq delete_breakpoint_def)
  then show ?thesis by (auto simp: k hashmap_okD [OF H] g(2))
qed

text \<open>
  Claim C25. Enabling a breakpoint that is enabled already succeeds and saves the patched word; the
  following disable then writes the trap instruction back: the process keeps a trap at the
  address, for which the debugger has no breakpoint any more.
\<close>

theorem double_enable_leaves_trap:
  assumes P: "process_ok tr mem regs" and H: "hashmap_ok hm" and inv: "bp_inv hm mem C orig S dbg" and a: "a \<in> S" "a \<in> C"
  shows "\<exists>dbg1 dbg2. apply_breakpoint ret tr hm dbg ENABLE_BREAKPOINT a = (0, dbg1)
    \<and> apply_breakpoint ret' tr hm dbg1 DISABLE_BREAKPOINT a = (0, dbg2)
    \<and> mem (tracee dbg2) a = 0xcc
    \<and> hashmap_get hm (breakpoints dbg2) (make_breakpoint a) = None"
proof -
  from bp_inv_get(2) [OF inv a(1)] obtain b where
    b: "hashmap_get hm (breakpoints dbg) (make_breakpoint a) = Some b" "mem_addr b = a" by auto
  let ?b = "b\<lparr>temporary_enable := False\<rparr>"
  from enable_apply [OF P, of ret hm dbg a ?b] b obtain k d where
    e: "apply_breakpoint ret tr hm dbg ENABLE_BREAKPOINT a =
        (0, dbg\<lparr>tracee := k, breakpoints := hashmap_set hm (breakpoints dbg) (?b\<lparr>saved_data := d, enabled := True\<rparr>)\<rparr>)"
    and d: "\<forall>j<8. byte_of d j = mem (tracee dbg) (a + of_nat j)"
    by (auto simp: get_breakpoint_eq)
  let ?dbg = "dbg\<lparr>tracee := k, breakpoints := hashmap_set hm (breakpoints dbg) (?b\<lparr>saved_data := d, enabled := True\<rparr>)\<rparr>"
  from d have "byte_of d 0 = 0xcc" using bp_inv_mem [OF inv a(2)] a(1) by simp
  moreover have "hashmap_get hm (breakpoints ?dbg) (make_breakpoint a) = Some (?b\<lparr>saved_data := d, enabled := True\<rparr>)"
    using b(2) by (simp add: hashmap_okD [OF H])
  from disable_apply [OF P H this, of ret'] b(2) obtain dbg2 where
    "apply_breakpoint ret' tr hm ?dbg DISABLE_BREAKPOINT a = (0, dbg2)"
    "mem (tracee dbg2) a = byte_of d 0" "hashmap_get hm (breakpoints dbg2) (make_breakpoint a) = None"
    by auto
  ultimately show ?thesis using e by auto
qed

theorem double_enable_leaves_trap_witness:
  "\<exists>dbg1 dbg2 dbg3. apply_breakpoint 7 sim_tracer map_hm (sim_dbg (\<lambda>_. None) ()) ENABLE_BREAKPOINT 0x1010 = (0, dbg1)
     \<and> apply_breakpoint 7 sim_tracer map_hm dbg1 ENABLE_BREAKPOINT 0x1010 = (0, dbg2)
     \<and> apply_breakpoint 7 sim_tracer map_hm dbg2 DISABLE_BREAKPOINT 0x1010 = (0, dbg3)
     \<and> sim_mem (tracee dbg3) 0x1010 = 0xcc"
proof -
  have sp: "spaced (insert 0x1010 {})" "word_in UNIV 0x1010" by (simp_all add: spaced_def word_in_def)
  from enable_new [OF sim_process map_hm_ok sim_bp_inv _ sp, of 7] obtain dbg1 where
    1: "apply_breakpoint 7 sim_tracer map_hm (sim_dbg (\<lambda>_. None) ()) ENABLE_BREAKPOINT 0x1010 = (0, dbg1)"
    "bp_inv map_hm sim_mem UNIV (\<lambda>_. 0x90) {0x1010} dbg1" by auto
  from double_enable_leaves_trap [OF sim_process map_hm_ok 1(2), of "0x1010" 7 7] 1(1) show ?thesis by auto
qed

text \<open>
  Claim C26. Two breakpoints less than eight bytes apart: disabling the first one writes its whole
  saved word back and so removes the trap of the second, which the map still holds as enabled.
\<close>

theorem overlapping_disable_removes_trap:
  assumes P: "process_ok tr mem regs" and H: "hashmap_ok hm" and inv: "bp_inv hm mem C orig {} dbg"
    and C: "word_in C a" and i: "0 < i" "i < 8" and orig: "orig (a + of_nat i) \<noteq> 0xcc"
  shows "\<exists>dbg1 dbg2 dbg3. apply_breakpoint r1 tr hm dbg ENABLE_BREAKPOINT a = (0, dbg1)
    \<and> apply_breakpoint r2 tr hm dbg1 ENABLE_BREAKPOINT (a + of_nat i) = (0, dbg2)
    \<and> mem (tracee dbg2) (a + of_nat i) = 0xcc
    \<and> apply_breakpoint r3 tr hm dbg2 DISABLE_BREAKPOINT a = (0, dbg3)
    \<and> mem (tracee dbg3) (a + of_nat i) = orig (a + of_nat i)
    \<and> (\<exists>b. hashmap_get hm (breakpoints dbg3) (make_breakpoint (a + of_nat i)) = Some b \<and> enabled b)"
proof -
  let ?c = "a + of_nat i"
  have near: "?c - a < 8" "unat (?c - a) = i" using offset_near [OF i(2), of a] i(2)
    by (simp_all add: unat_of_nat take_bit_nat_eq_self)
  then have ne: "?c \<noteq> a" using i(1) by auto
  have "spaced (insert a {})" by (simp add: spaced_def)
  from enable_new [OF P H inv _ this C, of r1] obtain dbg1 where
    1: "apply_breakpoint r1 tr hm dbg ENABLE_BREAKPOINT a = (0, dbg1)" "bp_inv hm mem C orig {a} dbg1" by auto
  have "hashmap_get hm (breakpoints dbg1) (make_breakpoint ?c) = None"
    using bp_inv_get(1) [OF 1(2), of ?c] ne by simp
  from enable_apply [OF P, of r2 hm dbg1 ?c "make_breakpoint ?c"] this obtain k d where
    2: "apply_breakpoint r2 tr hm dbg1 ENABLE_BREAKPOINT ?c = (0, dbg1\<lparr>tracee := k,
        breakpoints := hashmap_set hm (breakpoints dbg1) ((make_breakpoint ?c)\<lparr>saved_data := d, enabled := True\<rparr>)\<rparr>)"
      "mem k ?c = 0xcc" by (auto simp: get_breakpoint_eq)
  let ?dbg2 = "dbg1\<lparr>tracee := k,
        breakpoints := hashmap_set hm (breakpoints dbg1) ((make_breakpoint ?c)\<lparr>saved_data := d, enabled := True\<rparr>)\<rparr>"
  from bp_inv_get(2) [OF 1(2), of a] obtain b where
    b: "hashmap_get hm (breakpoints dbg1) (make_breakpoint a) = Some b" "mem_addr b = a"
      "\<forall>j<8. byte_of (saved_data b) j = orig (a + of_nat j)" by auto
  then have "hashmap_get hm (breakpoints ?dbg2) (make_breakpoint a) = Some b"
    using ne by (simp add: hashmap_okD [OF H])
  from disable_apply [OF P H this b(2), of r3] obtain dbg3 where
    3: "apply_breakpoint r3 tr hm ?dbg2 DISABLE_BREAKPOINT a = (0, dbg3)"
      "mem (tracee dbg3) ?c = byte_of (saved_data b) i"
      "hashmap_get hm (breakpoints dbg3) (make_breakpoint ?c) = hashmap_get hm (breakpoints ?dbg2) (make_breakpoint ?c)"
    using near ne by auto
  have "hashmap_get hm (breakpoints ?dbg2) (make_breakpoint ?c) = Some ((make_breakpoint ?c)\<lparr>saved_data := d, enabled := True\<rparr>)"
    by (simp add: hashmap_okD [OF H])
  with 1(1) 2 3 b(3) i(2) show ?thesis by (intro exI [of _ dbg1] exI [of _ ?dbg2] exI [of _ dbg3]) auto
qed

theorem overlapping_disable_removes_trap_witness:
  "\<exists>dbg1 dbg2 dbg3. apply_breakpoint 7 sim_tracer map_hm (sim_dbg (\<lambda>_. None) ()) ENABLE_BREAKPOINT 0x1010 = (0, dbg1)
     \<and> apply_breakpoint 7 sim_tracer map_hm dbg1 ENABLE_BREAKPOINT 0x1014 = (0, dbg2)
     \<and> apply_breakpoint 7 sim_tracer map_hm dbg2 DISABLE_BREAKPOINT 0x1010 = (0, dbg3)
     \<and> sim_mem (tracee dbg2) 0x1014 = 0xcc \<and> sim_mem (tracee dbg3) 0x1014 = 0x90"
  using overlapping_disable_removes_trap [OF sim_process map_hm_ok sim_bp_inv,
      where i = 4 and a = "0x1010" and ?r1.0 = 7 and ?r2.0 = 7 and ?r3.0 = 7] by (auto simp: word_in_def)

text \<open>
  Claim C24. Disabling where there is no breakpoint is not refused: a fresh record with an empty saved word is
  taken for the stored one, and eight zero bytes are written over the code. The command reports
  success.
\<close>

theorem disable_missing_writes_zeroes:
  assumes P: "process_ok tr mem regs" and "hashmap_get hm (breakpoints dbg) (make_breakpoint a) = None"
  shows "\<exists>dbg'. apply_breakpoint ret tr hm dbg DISABLE_BREAKPOINT a = (0, dbg')
    \<and> (\<forall>x. mem (tracee dbg') x = (if x - a < 8 then 0 else mem (tracee dbg) x))"
proof -
  have z: "byte_of 0 j = 0" for j by (rule bit_word_eqI) (simp add: byte_of_def bit_simps)
  from disable_run [OF P, of dbg "make_breakpoint a"] assms(2) show ?thesis
    by (auto simp: apply_breakpoint_def get_breakpoint_eq delete_breakpoint_def z)
qed

theorem disable_missing_writes_zeroes_witness:
  "\<exists>dbg'. apply_breakpoint 7 sim_tracer map_hm (sim_dbg (\<lambda>_. None) ()) DISABLE_BREAKPOINT 0x1010 = (0, dbg')
     \<and> sim_mem sim_start 0x1013 = 0x90 \<and> sim_mem (tracee dbg') 0x1013 = 0"
  using disable_missing_writes_zeroes [OF sim_process, of map_hm "sim_dbg (\<lambda>_. None) ()" "0x1010" 7]
  by (auto simp: map_hm_def sim_dbg_def sim_start_def)

end

