(* ===== verification/Stepping.thy ===== *)
theory Stepping
  imports Breakpoints
begin

section \<open>Stepping and running (\<^verbatim>\<open>debugger/debugger.c\<close>)\<close>

text \<open>
  Stepping over a breakpoint, the \<open>step\<close>, \<open>finish\<close>, \<open>next\<close> and \<open>continue\<close> commands. libunwind is a
  parameter: a record of its functions on cursors \<open>'u\<close>, which read the stopped process. Loops over a
  number that the user types, and the ones through libdwarf, take fuel.
\<close>

record ('k, 'u) unwinder =
  unw_init_remote :: "'k \<Rightarrow> int \<times> 'u"
  unw_step :: "'k \<Rightarrow> 'u \<Rightarrow> int \<times> 'u"
  unw_get_ip :: "'k \<Rightarrow> 'u \<Rightarrow> int \<times> UWORD"
  unw_get_sp :: "'k \<Rightarrow> 'u \<Rightarrow> int \<times> UWORD"
  unw_get_proc_name :: "'k \<Rightarrow> 'u \<Rightarrow> int \<times> string \<times> UWORD"

text \<open>An unwinder for the witnesses: one caller, whose frame is at a fixed address.\<close>

definition sim_unwinder :: "(sim, unit) unwinder" where
  "sim_unwinder = \<lparr>unw_init_remote = (\<lambda>_. (0, ())), unw_step = (\<lambda>_ _. (1, ())), unw_get_ip = (\<lambda>_ _. (0, 0x2000)),
     unw_get_sp = (\<lambda>_ _. (0, 0x7000)), unw_get_proc_name = (\<lambda>_ _. (0, ''main'', 0))\<rparr>"

subsection \<open>Stepping over a breakpoint\<close>

definition step_over_breakpoint :: "C_int \<Rightarrow> 'k tracer \<Rightarrow> 'm hashmap \<Rightarrow> ('k, 'm, 'h, 'z) Debugger_scheme
    \<Rightarrow> C_int \<times> ('k, 'm, 'h, 'z) Debugger_scheme" where
  "step_over_breakpoint ret tr hm dbg =
    (case get_regs_struct tr dbg of (res, regs) \<Rightarrow>
       if res \<noteq> 0 then (res, dbg)
       else (case get_register REG_rip of
           (res, None) \<Rightarrow> (res, dbg)
         | (_, Some (load, _)) \<Rightarrow>
             (case get_breakpoint_at_addr ret hm dbg (load regs) of (res, bp) \<Rightarrow>
                if res \<noteq> 0 then (res, dbg)
                else if \<not> enabled bp then (0, dbg)
                else (case disable_breakpoint tr dbg bp of (res, bp, dbg) \<Rightarrow>
                  if res \<noteq> 0 then (res, dbg)
                  else (case single_step tr dbg of (res, dbg) \<Rightarrow>
                    if res \<noteq> 0 then (res, dbg)
                    else (case wait_and_handle_signal tr dbg of (res, dbg) \<Rightarrow>
                      if res \<noteq> 0 then (res, dbg)
                      else (case enable_breakpoint tr dbg bp of (res, bp, dbg) \<Rightarrow>
                        if res \<noteq> 0 then (res, dbg) else (0, dbg))))))))"

subsection \<open>The step command\<close>

text \<open>
  One turn of the loop; \<open>pc0\<close> is the indeterminate word that is used as the program counter when
  the registers cannot be read, because the result of \<open>get_reg_value\<close> is ignored.
\<close>

definition step_once :: "UWORD \<Rightarrow> C_int \<Rightarrow> 'k tracer \<Rightarrow> 'm hashmap \<Rightarrow> ('k, 'm, 'h, 'z) Debugger_scheme
    \<Rightarrow> C_int \<times> ('k, 'm, 'h, 'z) Debugger_scheme" where
  "step_once pc0 ret tr hm dbg =
    (let pc = (case snd (get_reg_value tr dbg REG_rip) of Some pc \<Rightarrow> pc | None \<Rightarrow> pc0) in
     case get_breakpoint_at_addr ret hm dbg pc of (res, bp) \<Rightarrow>
       if res \<noteq> 0 then (res, dbg)
       else if enabled bp then step_over_breakpoint ret tr hm dbg
       else (case single_step tr dbg of (res, dbg) \<Rightarrow>
         if res \<noteq> 0 then (res, dbg) else wait_and_handle_signal tr dbg))"

text \<open>\<open>while (times--)\<close> on the 64-bit number: a negative one does not end it.\<close>

fun step_loop :: "nat \<Rightarrow> UWORD \<Rightarrow> C_int \<Rightarrow> 'k tracer \<Rightarrow> 'm hashmap \<Rightarrow> WORD \<Rightarrow> ('k, 'm, 'h, 'z) Debugger_scheme
    \<Rightarrow> (C_int \<times> ('k, 'm, 'h, 'z) Debugger_scheme) run" where
  "step_loop 0 pc0 ret tr hm cnt dbg = NoFuel"
| "step_loop (Suc fuel) pc0 ret tr hm cnt dbg =
    (if cnt = 0 then Value (0, dbg)
     else (case step_once pc0 ret tr hm dbg of (res, dbg) \<Rightarrow>
       if res \<noteq> 0 then Value (res, dbg) else step_loop fuel pc0 ret tr hm (cnt - 1) dbg))"

text \<open>
  The number must end where the token does: the end pointer, at offset \<open>t + length s - length r\<close>, is
  compared with the read position of the buffer behind the token's zero byte.
\<close>

definition trailing_text :: "nat \<Rightarrow> string \<Rightarrow> string \<Rightarrow> Buffer \<Rightarrow> bool" where
  "trailing_text t s r buffer = (t + (length s - length r) + 1 < rseek buffer)"

definition handle_step :: "nat \<Rightarrow> UWORD \<Rightarrow> C_int \<Rightarrow> 'k tracer \<Rightarrow> 'm hashmap \<Rightarrow> ('k, 'm, 'h, 'z) Debugger_scheme
    \<Rightarrow> Buffer \<Rightarrow> (C_int \<times> ('k, 'm, 'h, 'z) Debugger_scheme) run" where
  "handle_step fuel pc0 ret tr hm dbg buffer =
    run_bind (take_token buffer) (\<lambda>(t, s, buffer).
      case (t, s) of
        (Some t, Some s) \<Rightarrow>
          (case strtoll 10 s of (cnt, r) \<Rightarrow>
             if trailing_text t s r buffer then Value (1, dbg)
             else step_loop fuel pc0 ret tr hm (word_of_int cnt) dbg)
      | _ \<Rightarrow> Value (1, dbg))"

subsection \<open>Finishing the current function\<close>

definition step_out :: "C_int \<Rightarrow> 'k tracer \<Rightarrow> ('k, 'u) unwinder \<Rightarrow> 'm hashmap \<Rightarrow> ('k, 'm, 'h, 'z) Debugger_scheme
    \<Rightarrow> C_int \<times> ('k, 'm, 'h, 'z) Debugger_scheme" where
  "step_out ret tr uw hm dbg =
    (case unw_init_remote uw (tracee dbg) of (res, cursor) \<Rightarrow>
       if res < 0 then (1, dbg)
       else (case unw_step uw (tracee dbg) cursor of (res, cursor) \<Rightarrow>
         if res < 0 then (1, dbg)
         else if res = 0 then (0, dbg)
         else (case unw_get_sp uw (tracee dbg) cursor of (res, caller_frame) \<Rightarrow>
           if res \<noteq> 0 then (1, dbg)
           else (case ptrace_peek_data tr dbg (caller_frame - 8) of (res, return_addr) \<Rightarrow>
             if res \<noteq> 0 then (res, dbg)
             else (case get_breakpoint_at_addr ret hm dbg return_addr of (res, bp) \<Rightarrow>
               if res \<noteq> 0 \<and> res \<noteq> KEY_NOT_EXISTS then (res, dbg)
               else let temp = (res = KEY_NOT_EXISTS \<or> \<not> enabled bp) in
                 (case enable_breakpoint tr dbg bp of (res, bp, dbg) \<Rightarrow>
                    if res \<noteq> 0 then (res, dbg)
                    else (case step_over_breakpoint ret tr hm dbg of (res, dbg) \<Rightarrow>
                      if res \<noteq> 0 then (res, dbg)
                      else (case debug_continue tr dbg of (res, dbg) \<Rightarrow>
                        if res \<noteq> 0 then (res, dbg)
                        else (case wait_and_handle_signal tr dbg of (res, dbg) \<Rightarrow>
                          if res \<noteq> 0 then (res, dbg)
                          else if temp then
                            (case disable_breakpoint tr dbg bp of (res, bp, dbg) \<Rightarrow>
                               if res \<noteq> 0 then (res, dbg) else (0, dbg))
                          else (0, dbg))))))))))"

subsection \<open>Going on to the next line\<close>

text \<open>
  The two loops over the rows of the line table from \<open>line_index\<close> on, up to the first row at or
  above \<open>high_pc\<close>. They end early with a code (\<open>Inl\<close>) or go through (\<open>Inr\<close>).
\<close>

fun plant_loop :: "C_int \<Rightarrow> 'k tracer \<Rightarrow> 'm hashmap \<Rightarrow> ('h, 'd, 'c, 'l, 'y) dwarf_lib_scheme \<Rightarrow> UWORD \<Rightarrow> 'l list
    \<Rightarrow> ('k, 'm, 'h, 'z) Debugger_scheme \<Rightarrow> (C_int + unit) \<times> ('k, 'm, 'h, 'z) Debugger_scheme" where
  "plant_loop ret tr hm lib high_pc [] dbg = (Inr (), dbg)"
| "plant_loop ret tr hm lib high_pc (l # lines) dbg =
    (case lineaddr lib l of (res, line_addr) \<Rightarrow>
       if res \<noteq> DW_DLV_OK then (Inl 1, dbg)
       else if line_addr \<ge> high_pc then (Inr (), dbg)
       else let line_addr = line_addr + load_address dbg in
         (case get_breakpoint_at_addr ret hm dbg line_addr of (res, bp) \<Rightarrow>
            if res \<noteq> 0 \<and> res \<noteq> KEY_NOT_EXISTS then (Inl res, dbg)
            else if res = 0 \<and> enabled bp then plant_loop ret tr hm lib high_pc lines dbg
            else let bp = make_breakpoint line_addr;
                     bp = (if res = KEY_NOT_EXISTS \<or> \<not> enabled bp
                           then bp\<lparr>temporary_enable := True\<rparr> else bp)
              in (case enable_breakpoint tr dbg bp of (res, bp, dbg) \<Rightarrow>
                if res \<noteq> 0 then (Inl res, dbg)
                else (case save_breakpoint hm dbg bp of (res, dbg) \<Rightarrow>
                  if res \<noteq> 0 then (Inl res, dbg)
                  else plant_loop ret tr hm lib high_pc lines dbg))))"

fun cleanup_loop :: "C_int \<Rightarrow> 'k tracer \<Rightarrow> 'm hashmap \<Rightarrow> ('h, 'd, 'c, 'l, 'y) dwarf_lib_scheme \<Rightarrow> UWORD \<Rightarrow> 'l list
    \<Rightarrow> ('k, 'm, 'h, 'z) Debugger_scheme \<Rightarrow> (C_int + unit) \<times> ('k, 'm, 'h, 'z) Debugger_scheme" where
  "cleanup_loop ret tr hm lib high_pc [] dbg = (Inr (), dbg)"
| "cleanup_loop ret tr hm lib high_pc (l # lines) dbg =
    (case lineaddr lib l of (res, line_addr) \<Rightarrow>
       if res \<noteq> DW_DLV_OK then (Inl 1, dbg)
       else if line_addr \<ge> high_pc then (Inr (), dbg)
       else let line_addr = line_addr + load_address dbg in
         (case get_breakpoint_at_addr ret hm dbg line_addr of (res, bp) \<Rightarrow>
            if res \<noteq> 0 \<and> res \<noteq> KEY_NOT_EXISTS then (Inl res, dbg)
            else if res = KEY_NOT_EXISTS \<or> \<not> enabled bp \<or> \<not> temporary_enable bp
            then cleanup_loop ret tr hm lib high_pc lines dbg
            else (case disable_breakpoint tr dbg bp of (res, bp, dbg) \<Rightarrow>
              if res \<noteq> 0 then (Inl res, dbg) else cleanup_loop ret tr hm lib high_pc lines dbg)))"

text \<open>
  \<open>next_lookup\<close> is the first half of \<open>step_in\<close>: the rows from the first one of the current subprogram
  on and the end of the subprogram, or a code. \<open>next_run\<close> is the second half.
\<close>

definition next_lookup :: "nat \<Rightarrow> 'k tracer \<Rightarrow> ('h, 'd, 'c, 'l, 'y) dwarf_lib_scheme
    \<Rightarrow> ('k, 'm, 'h, 'z) Debugger_scheme
    \<Rightarrow> ((C_int + (UWORD \<times> 'l list)) \<times> ('k, 'm, 'h, 'z) Debugger_scheme) run" where
  "next_lookup fuel tr lib dbg =
    (case get_reg_value tr dbg REG_rip of
       (res, None) \<Rightarrow> Value (Inl res, dbg)
     | (_, Some pc) \<Rightarrow>
       run_bind (get_cu_from_addr fuel lib (pc - load_address dbg) (dwarf_dbg dbg)) (\<lambda>(res, cu_die, h).
         let dbg = dbg\<lparr>dwarf_dbg := h\<rparr> in
         if res = DW_DLV_ERROR then Value (Inl 1, dbg)
         else if cu_die = None then Value (Inl 1, dbg)
         else (case get_line_iterator lib cu_die of (res, it) \<Rightarrow>
           if res \<noteq> DW_DLV_OK then Value (Inl 1, dbg)
           else let it = attach_cu_die it cu_die in
             run_bind (get_sub_prog_die_in_die_from_addr fuel lib (pc - load_address dbg) cu_die None)
               (\<lambda>(res, subprog_die).
                 if res = DW_DLV_ERROR then Value (Inl 1, dbg)
                 else if subprog_die = None then Value (Inl 1, dbg)
                 else (case get_low_high_pc_from_die lib subprog_die of
                     (res, low_pc, None) \<Rightarrow> Value (Inl 1, dbg)
                   | (res, low_pc, Some high_pc) \<Rightarrow>
                     if res \<noteq> DW_DLV_OK then Value (Inl 1, dbg)
                     else (case search_addr_in_lines lib it low_pc of
                         (res, None) \<Rightarrow> Value (Inl 1, dbg)
                       | (_, Some line_index) \<Rightarrow>
                           Value (Inr (high_pc, drop (nat line_index) (dw_lines it)), dbg)))))))"

definition next_run :: "C_int \<Rightarrow> 'k tracer \<Rightarrow> ('k, 'u) unwinder \<Rightarrow> 'm hashmap
    \<Rightarrow> ('h, 'd, 'c, 'l, 'y) dwarf_lib_scheme \<Rightarrow> UWORD \<Rightarrow> 'l list \<Rightarrow> ('k, 'm, 'h, 'z) Debugger_scheme
    \<Rightarrow> C_int \<times> ('k, 'm, 'h, 'z) Debugger_scheme" where
  "next_run ret tr uw hm lib high_pc rows dbg =
    (case plant_loop ret tr hm lib high_pc rows dbg of
       (Inl res, dbg) \<Rightarrow> (res, dbg)
     | (Inr _, dbg) \<Rightarrow>
       (case step_out ret tr uw hm dbg of (res, dbg) \<Rightarrow>
          if res \<noteq> 0 then (res, dbg)
          else (case cleanup_loop ret tr hm lib high_pc rows dbg of
            (Inl res, dbg) \<Rightarrow> (res, dbg)
          | (Inr _, dbg) \<Rightarrow> (0, dbg))))"

definition step_in :: "C_int \<Rightarrow> nat \<Rightarrow> 'k tracer \<Rightarrow> ('k, 'u) unwinder \<Rightarrow> 'm hashmap
    \<Rightarrow> ('h, 'd, 'c, 'l, 'y) dwarf_lib_scheme \<Rightarrow> ('k, 'm, 'h, 'z) Debugger_scheme
    \<Rightarrow> (C_int \<times> ('k, 'm, 'h, 'z) Debugger_scheme) run" where
  "step_in ret fuel tr uw hm lib dbg =
    run_bind (next_lookup fuel tr lib dbg) (\<lambda>(r, dbg).
      case r of Inl res \<Rightarrow> Value (res, dbg)
      | Inr (high_pc, rows) \<Rightarrow> Value (next_run ret tr uw hm lib high_pc rows dbg))"

subsection \<open>Continuing\<close>

text \<open>The first case of \<open>handle_command\<close>.\<close>

definition handle_continue :: "C_int \<Rightarrow> 'k tracer \<Rightarrow> 'm hashmap \<Rightarrow> ('k, 'm, 'h, 'z) Debugger_scheme
    \<Rightarrow> C_int \<times> ('k, 'm, 'h, 'z) Debugger_scheme" where
  "handle_continue ret tr hm dbg =
    (case step_over_breakpoint ret tr hm dbg of (res, dbg) \<Rightarrow>
       if res \<noteq> 0 then (res, dbg)
       else (case debug_continue tr dbg of (res, dbg) \<Rightarrow>
         if res \<noteq> 0 then (res, dbg) else wait_and_handle_signal tr dbg))"


subsection \<open>The code and the breakpoints while the process runs\<close>

text \<open>
  \<open>runs_ok\<close>: the process does not write its code at the addresses \<open>C\<close>. \<open>holds_bps\<close> is the part of
  the breakpoint invariant about the map. \<open>same_store\<close>: the map and the load address are kept.
\<close>

definition runs_ok :: "'k tracer \<Rightarrow> ('k \<Rightarrow> addr \<Rightarrow> byte) \<Rightarrow> addr set \<Rightarrow> bool" where
  "runs_ok tr mem C \<longleftrightarrow> (\<forall>k. \<forall>x\<in>C. mem (snd (tr_cont tr k)) x = mem k x
     \<and> mem (snd (tr_singlestep tr k)) x = mem k x \<and> mem (snd (snd (tr_waitpid tr k))) x = mem k x)"

definition holds_bps :: "'m hashmap \<Rightarrow> (addr \<Rightarrow> byte) \<Rightarrow> addr set \<Rightarrow> 'm \<Rightarrow> bool" where
  "holds_bps hm orig S m \<longleftrightarrow> (\<forall>a. bp_entry orig S a (hashmap_get hm m (make_breakpoint a)))"

lemma bp_inv_parts: "bp_inv hm mem C orig S dbg \<longleftrightarrow>
    code_patched mem C orig S (tracee dbg) \<and> holds_bps hm orig S (breakpoints dbg)"
  by (simp add: bp_inv_def holds_bps_def)

definition same_store :: "('k, 'm, 'h, 'z) Debugger_scheme \<Rightarrow> ('k, 'm, 'h, 'z) Debugger_scheme \<Rightarrow> bool" where
  "same_store dbg dbg' \<longleftrightarrow> breakpoints dbg' = breakpoints dbg \<and> load_address dbg' = load_address dbg"

lemma same_store_intros [simp]:
  "same_store dbg dbg" "same_store dbg (dbg\<lparr>tracee := k\<rparr>)" "same_store dbg (fprintf f args dbg)"
  by (simp_all add: same_store_def fprintf_def)

lemma same_store_trans: "same_store a b \<Longrightarrow> same_store b c \<Longrightarrow> same_store a c"
  by (simp add: same_store_def)

lemma patched_cong:
  "code_patched mem C orig M k \<Longrightarrow> (\<And>x. x \<in> C \<Longrightarrow> mem k' x = mem k x) \<Longrightarrow> code_patched mem C orig M k'"
  by (simp add: code_patched_def)

lemma sigtrap_keeps [dbg_ops]:
  assumes "process_ok tr mem regs" "handle_sigtrap tr dbg code = (res, dbg')"
  shows "same_store dbg dbg' \<and> mem (tracee dbg') = mem (tracee dbg)"
  using assms(2) process_okD(6,9) [OF assms(1)]
  by (auto simp: handle_sigtrap_def get_register_rip get_regs_struct_def set_regs_struct_def case_prod_beta
      same_store_def split: if_splits)

lemma wait_keeps [dbg_ops]:
  assumes "process_ok tr mem regs" "runs_ok tr mem C" "wait_and_handle_signal tr dbg = (res, dbg')"
  shows "same_store dbg dbg' \<and> (\<forall>x\<in>C. mem (tracee dbg') x = mem (tracee dbg) x)"
proof -
  obtain r status k where w: "tr_waitpid tr (tracee dbg) = (r, status, k)" by (rule prod_cases3)
  then have k: "\<forall>x\<in>C. mem k x = mem (tracee dbg) x"
    using assms(2) unfolding runs_ok_def by (metis snd_conv)
  consider "dbg' = dbg\<lparr>tracee := k\<rparr>" | code where "dbg' = fprintf ''Unhandled signal: %x'' [OInt code] (dbg\<lparr>tracee := k\<rparr>)"
    | code where "handle_sigtrap tr (dbg\<lparr>tracee := k\<rparr>) code = (res, dbg')"
    using assms(3) w
    by (auto simp: wait_and_handle_signal_def wait_for_signal_def get_siginfo_def Let_def case_prod_beta
        split: if_splits)
  then show ?thesis
  proof cases
    case (3 code)
    from sigtrap_keeps [OF assms(1) 3] k show ?thesis by (simp add: same_store_def)
  qed (use k in \<open>simp_all add: same_store_def fprintf_def\<close>)
qed

lemma resume_keeps [dbg_ops]:
  assumes "runs_ok tr mem C"
  shows "single_step tr dbg = (res, dbg') \<Longrightarrow>
      same_store dbg dbg' \<and> (\<forall>x\<in>C. mem (tracee dbg') x = mem (tracee dbg) x)"
    and "debug_continue tr dbg = (res, dbg') \<Longrightarrow>
      same_store dbg dbg' \<and> (\<forall>x\<in>C. mem (tracee dbg') x = mem (tracee dbg) x)"
  using assms unfolding runs_ok_def single_step_def debug_continue_def same_store_def
  by (auto simp: case_prod_beta)

text \<open>Arming and disarming one address of a patched code.\<close>

lemma arm:
  assumes "process_ok tr mem regs" "code_patched mem C orig M (tracee dbg)"
  shows "\<exists>k d. enable_breakpoint tr dbg bp = (0, bp\<lparr>saved_data := d, enabled := True\<rparr>, dbg\<lparr>tracee := k\<rparr>)
    \<and> (\<forall>j<8. byte_of d j = mem (tracee dbg) (mem_addr bp + of_nat j))
    \<and> code_patched mem C orig (insert (mem_addr bp) M) k \<and> regs k = regs (tracee dbg)
    \<and> (\<forall>x. mem k x = (if x = mem_addr bp then 0xcc else mem (tracee dbg) x))"
  using enable_run [OF assms(1), of dbg bp] assms(2) unfolding code_patched_def
  by (elim exE conjE, intro exI conjI) (assumption | simp)+

lemma disarm:
  assumes "process_ok tr mem regs" "code_patched mem C orig M (tracee dbg)" "spaced M" "mem_addr bp \<in> M"
    and "\<forall>j<8. byte_of (saved_data bp) j = orig (mem_addr bp + of_nat j)"
  shows "\<exists>k. disable_breakpoint tr dbg bp = (0, bp\<lparr>enabled := False\<rparr>, dbg\<lparr>tracee := k\<rparr>)
    \<and> code_patched mem C orig (M - {mem_addr bp}) k \<and> regs k = regs (tracee dbg)"
proof -
  let ?a = "mem_addr bp"
  from disable_run [OF assms(1), of dbg bp] obtain k where
    k: "disable_breakpoint tr dbg bp = (0, bp\<lparr>enabled := False\<rparr>, dbg\<lparr>tracee := k\<rparr>)" "regs k = regs (tracee dbg)"
      "\<And>x. mem k x = (if x - ?a < 8 then byte_of (saved_data bp) (unat (x - ?a)) else mem (tracee dbg) x)"
    by auto
  have "mem k x = (if x \<in> M - {?a} then 0xcc else orig x)" if "x \<in> C" for x
  proof (cases "x - ?a < 8")
    case True
    then have "x \<notin> M - {?a}" using assms(3,4) unfolding spaced_def by (metis DiffD1 DiffD2 leD singletonI)
    moreover have "mem k x = orig x" using True k(3) [of x] assms(5) near_offset [OF True] by simp
    ultimately show ?thesis by (simp only: if_False)
  next
    case False
    then have "x \<noteq> ?a" by auto
    with False k(3) [of x] assms(2) that show ?thesis by (simp add: code_patched_def)
  qed
  with k(1,2) show ?thesis by (auto simp: code_patched_def)
qed


subsection \<open>Stepping over a breakpoint\<close>

text \<open>
  What follows the disarming in \<open>step_over_breakpoint\<close>: a single step with its stop, and arming again.
\<close>

definition step_and_rearm :: "'k tracer \<Rightarrow> Breakpoint \<Rightarrow> ('k, 'm, 'h, 'z) Debugger_scheme
    \<Rightarrow> C_int \<times> ('k, 'm, 'h, 'z) Debugger_scheme" where
  "step_and_rearm tr bp dbg =
    (case single_step tr dbg of (res, dbg) \<Rightarrow>
       if res \<noteq> 0 then (res, dbg)
       else (case wait_and_handle_signal tr dbg of (res, dbg) \<Rightarrow>
         if res \<noteq> 0 then (res, dbg)
         else (case enable_breakpoint tr dbg bp of (res, bp, dbg) \<Rightarrow>
           if res \<noteq> 0 then (res, dbg) else (0, dbg))))"

lemma step_over_run:
  assumes P: "process_ok tr mem regs" and H: "hashmap_ok hm"
    and inv: "code_patched mem C orig M (tracee dbg)" "holds_bps hm orig S (breakpoints dbg)" "S \<subseteq> M" "spaced M"
    and pc: "pc = rip (regs (tracee dbg))"
  shows "pc \<notin> S \<Longrightarrow> step_over_breakpoint ret tr hm dbg = (0, dbg)"
    and "pc \<in> S \<Longrightarrow> \<exists>k bp. step_over_breakpoint ret tr hm dbg = step_and_rearm tr bp (dbg\<lparr>tracee := k\<rparr>)
      \<and> mem_addr bp = pc \<and> code_patched mem C orig (M - {pc}) k \<and> regs k = regs (tracee dbg)"
proof -
  note r = process_okD(6) [OF P, of "tracee dbg"]
  have e: "bp_entry orig S pc (hashmap_get hm (breakpoints dbg) (make_breakpoint pc))"
    using inv(2) by (simp add: holds_bps_def)
  {
    assume "pc \<notin> S"
    with e have "hashmap_get hm (breakpoints dbg) (make_breakpoint pc) = None"
      by (auto simp: bp_entry_def split: option.splits)
    with r pc show "step_over_breakpoint ret tr hm dbg = (0, dbg)"
      by (simp add: step_over_breakpoint_def get_regs_struct_def get_register_rip get_breakpoint_eq)
  next
    assume S: "pc \<in> S"
    with e obtain b where b: "hashmap_get hm (breakpoints dbg) (make_breakpoint pc) = Some b"
      "mem_addr b = pc" "enabled b" "\<forall>j<8. byte_of (saved_data b) j = orig (pc + of_nat j)"
      by (auto simp: bp_entry_def split: option.splits)
    let ?b = "b\<lparr>temporary_enable := False\<rparr>"
    have pre: "mem_addr ?b \<in> M" "\<forall>j<8. byte_of (saved_data ?b) j = orig (mem_addr ?b + of_nat j)"
      using b S inv(3) by auto
    from disarm [OF P inv(1,4) pre] obtain k where
      k: "disable_breakpoint tr dbg ?b = (0, ?b\<lparr>enabled := False\<rparr>, dbg\<lparr>tracee := k\<rparr>)"
        "code_patched mem C orig (M - {pc}) k" "regs k = regs (tracee dbg)" using b(2) by auto
    have "step_over_breakpoint ret tr hm dbg = step_and_rearm tr (?b\<lparr>enabled := False\<rparr>) (dbg\<lparr>tracee := k\<rparr>)"
      using r pc b k(1)
      by (simp add: step_over_breakpoint_def get_regs_struct_def get_register_rip get_breakpoint_eq step_and_rearm_def)
    with k b(2) show "\<exists>k bp. step_over_breakpoint ret tr hm dbg = step_and_rearm tr bp (dbg\<lparr>tracee := k\<rparr>)
        \<and> mem_addr bp = pc \<and> code_patched mem C orig (M - {pc}) k \<and> regs k = regs (tracee dbg)"
      by (intro exI conjI) (assumption | simp)+
  }
qed

lemma step_and_rearm_result:
  assumes P: "process_ok tr mem regs" and R: "runs_ok tr mem C"
    and M: "code_patched mem C orig M (tracee dbg)" and run: "step_and_rearm tr bp dbg = (res, dbg')"
  shows "same_store dbg dbg' \<and>
    code_patched mem C orig (if res = 0 then insert (mem_addr bp) M else M) (tracee dbg')"
proof -
  obtain r1 d1 where 1: "single_step tr dbg = (r1, d1)" by (rule prod.exhaust)
  obtain r2 d2 where 2: "wait_and_handle_signal tr d1 = (r2, d2)" by (rule prod.exhaust)
  note k1 = resume_keeps(1) [OF R 1] and k2 = wait_keeps [OF P R 2]
  have m1: "code_patched mem C orig M (tracee d1)" using k1 patched_cong [OF M] by blast
  have m2: "code_patched mem C orig M (tracee d2)" using k2 patched_cong [OF m1] by blast
  from arm [OF P m2, of bp] obtain k d where
    a: "enable_breakpoint tr d2 bp = (0, bp\<lparr>saved_data := d, enabled := True\<rparr>, d2\<lparr>tracee := k\<rparr>)"
      "code_patched mem C orig (insert (mem_addr bp) M) k" by blast
  have s: "same_store dbg d1" "same_store dbg d2" using k1 k2 by (auto simp: same_store_def)
  show ?thesis
    using run 1 2 a m1 m2 s by (auto simp: step_and_rearm_def same_store_def split: if_splits)
qed

lemma step_over_keeps:
  assumes P: "process_ok tr mem regs" and R: "runs_ok tr mem C" and H: "hashmap_ok hm"
    and inv: "code_patched mem C orig M (tracee dbg)" "holds_bps hm orig S (breakpoints dbg)" "S \<subseteq> M" "spaced M"
    and run: "step_over_breakpoint ret tr hm dbg = (0, dbg')"
  shows "same_store dbg dbg' \<and> code_patched mem C orig M (tracee dbg')"
proof (cases "rip (regs (tracee dbg)) \<in> S")
  case False
  from step_over_run(1) [OF P H inv refl False, of ret] run inv(1) show ?thesis by simp
next
  case True
  from step_over_run(2) [OF P H inv refl True, of ret] obtain k bp where
    k: "step_over_breakpoint ret tr hm dbg = step_and_rearm tr bp (dbg\<lparr>tracee := k\<rparr>)"
      "mem_addr bp = rip (regs (tracee dbg))" "code_patched mem C orig (M - {rip (regs (tracee dbg))}) k" by blast
  have "code_patched mem C orig (M - {rip (regs (tracee dbg))}) (tracee (dbg\<lparr>tracee := k\<rparr>))" using k(3) by simp
  from step_and_rearm_result [OF P R this run [unfolded k(1)]] True inv(3) show ?thesis
    by (auto simp: k(2) same_store_def insert_absorb)
qed

text \<open>
  Claim C11. Stepping over a breakpoint that ends with code 0 leaves the breakpoints as they were:
  the original instruction was executed once, with the trap taken out for that step alone, and the
  map and the patched code agree afterwards as before.
\<close>

theorem step_over_keeps_breakpoints:
  assumes "process_ok tr mem regs" "runs_ok tr mem C" "hashmap_ok hm"
    and "bp_inv hm mem C orig S dbg" "spaced S"
    and "step_over_breakpoint ret tr hm dbg = (0, dbg')"
  shows "bp_inv hm mem C orig S dbg'
    \<and> (rip (regs (tracee dbg)) \<notin> S \<longrightarrow> dbg' = dbg)
    \<and> (rip (regs (tracee dbg)) \<in> S \<longrightarrow> (\<exists>k bp. step_and_rearm tr bp (dbg\<lparr>tracee := k\<rparr>) = (0, dbg')
         \<and> code_patched mem C orig (S - {rip (regs (tracee dbg))}) k \<and> regs k = regs (tracee dbg)))"
proof -
  have inv: "code_patched mem C orig S (tracee dbg)" "holds_bps hm orig S (breakpoints dbg)" "S \<subseteq> S" "spaced S"
    using assms(4,5) by (simp_all add: bp_inv_parts)
  note run = step_over_run [OF assms(1,3) inv refl, of ret]
  from step_over_keeps [OF assms(1-3) inv assms(6)] inv(2) have "bp_inv hm mem C orig S dbg'"
    by (simp add: bp_inv_parts same_store_def)
  moreover have "rip (regs (tracee dbg)) \<notin> S \<longrightarrow> dbg' = dbg" using run(1) assms(6) by auto
  moreover have "rip (regs (tracee dbg)) \<in> S \<longrightarrow> (\<exists>k bp. step_and_rearm tr bp (dbg\<lparr>tracee := k\<rparr>) = (0, dbg')
         \<and> code_patched mem C orig (S - {rip (regs (tracee dbg))}) k \<and> regs k = regs (tracee dbg))"
    using run(2) assms(6) by fastforce
  ultimately show ?thesis by blast
qed

lemma sim_runs: "runs_ok (sim_tracer\<lparr>tr_siginfo := si\<rparr>) sim_mem C" "runs_ok sim_tracer sim_mem C"
  by (simp_all add: runs_ok_def sim_tracer_def)

lemma sim_process_si: "process_ok (sim_tracer\<lparr>tr_siginfo := si\<rparr>) sim_mem sim_regs"
  using sim_process by (simp add: process_ok_def)

text \<open>A stopped process with a breakpoint at its program counter.\<close>

lemma sim_at_breakpoint:
  "\<exists>dbg :: (sim, addr \<Rightarrow> Breakpoint option, unit) Debugger. bp_inv map_hm sim_mem UNIV (\<lambda>_. 0x90) {0x1000} dbg
     \<and> rip (sim_regs (tracee dbg)) = 0x1000"
proof -
  have "spaced (insert 0x1000 {})" "word_in UNIV 0x1000" by (simp_all add: spaced_def word_in_def)
  from enable_new [OF sim_process map_hm_ok sim_bp_inv _ this, of 7] show ?thesis
    by (auto simp: sim_dbg_def sim_start_def)
qed

lemma sim_step_over:
  fixes dbg :: "(sim, addr \<Rightarrow> Breakpoint option, unit) Debugger"
  assumes d: "bp_inv map_hm sim_mem UNIV (\<lambda>_. 0x90) {0x1000} dbg" "rip (sim_regs (tracee dbg)) = 0x1000"
  shows "fst (step_over_breakpoint 7 sim_tracer map_hm dbg) = 0"
    and "fst (step_over_breakpoint 7 (sim_tracer\<lparr>tr_siginfo := \<lambda>_. (0, 11, 1)\<rparr>) map_hm dbg) = -1"
proof -
  have sp: "spaced {0x1000}" by (simp add: spaced_def)
  have inv: "code_patched sim_mem UNIV (\<lambda>_. 0x90) {0x1000} (tracee dbg)"
      "holds_bps map_hm (\<lambda>_. 0x90) {0x1000} (breakpoints dbg)" "{0x1000} \<subseteq> {0x1000 :: addr}"
    using d by (simp_all add: bp_inv_parts)
  have pc: "0x1000 = rip (sim_regs (tracee dbg))" "(0x1000 :: addr) \<in> {0x1000}" using d by simp_all
  note defs = step_and_rearm_def single_step_def wait_and_handle_signal_def wait_for_signal_def
      get_siginfo_def handle_sigtrap_def debugee_terminated_def WIFEXITED_def WIFSIGNALED_def sim_tracer_def
      enable_breakpoint_def ptrace_peek_data_def Let_def
  from step_over_run(2) [OF sim_process map_hm_ok inv sp pc, of 7]
  show "fst (step_over_breakpoint 7 sim_tracer map_hm dbg) = 0" by (auto simp: defs)
  from step_over_run(2) [OF sim_process_si [of "\<lambda>_. (0, 11, 1)"] map_hm_ok inv sp pc, of 7]
  show "fst (step_over_breakpoint 7 (sim_tracer\<lparr>tr_siginfo := \<lambda>_. (0, 11, 1)\<rparr>) map_hm dbg) = -1"
    by (auto simp: defs)
qed

theorem step_over_keeps_breakpoints_witness:
  "\<exists>(dbg :: (sim, addr \<Rightarrow> Breakpoint option, unit) Debugger) dbg'.
     step_over_breakpoint 7 sim_tracer map_hm dbg = (0, dbg') \<and> rip (sim_regs (tracee dbg)) = 0x1000
     \<and> sim_mem (tracee dbg) 0x1000 = 0xcc \<and> sim_mem (tracee dbg') 0x1000 = 0xcc"
proof -
  from sim_at_breakpoint obtain dbg :: "(sim, addr \<Rightarrow> Breakpoint option, unit) Debugger" where
    d: "bp_inv map_hm sim_mem UNIV (\<lambda>_. 0x90) {0x1000} dbg" "rip (sim_regs (tracee dbg)) = 0x1000" by blast
  have sp: "spaced {0x1000}" by (simp add: spaced_def)
  from sim_step_over(1) [OF d] obtain dbg' where run: "step_over_breakpoint 7 sim_tracer map_hm dbg = (0, dbg')"
    by (metis prod.collapse)
  from step_over_keeps_breakpoints [OF sim_process sim_runs(2) map_hm_ok d(1) sp run]
  have "bp_inv map_hm sim_mem UNIV (\<lambda>_. 0x90) {0x1000} dbg'" by (rule conjunct1)
  from bp_inv_mem [OF this, of "0x1000"] bp_inv_mem [OF d(1), of "0x1000"] d(2) run show ?thesis
    by - (rule exI [of _ dbg], rule exI [of _ dbg'], simp add: bp_inv_mem)
qed

text \<open>
  Claim C22. When the stop after the single step is not a plain trap (any other signal, or a failed
  wait), the trap is not put back: the code at the program counter is the original one while the
  map still holds the breakpoint as enabled.
\<close>

theorem step_over_failure_disarms:
  assumes "process_ok tr mem regs" "runs_ok tr mem C" "hashmap_ok hm"
    and "bp_inv hm mem C orig S dbg" "spaced S" "pc = rip (regs (tracee dbg))" "pc \<in> S" "pc \<in> C"
    and "step_over_breakpoint ret tr hm dbg = (res, dbg')" "res \<noteq> 0"
  shows "mem (tracee dbg') pc = orig pc
    \<and> (\<exists>b. hashmap_get hm (breakpoints dbg') (make_breakpoint pc) = Some b \<and> enabled b)"
proof -
  have inv: "code_patched mem C orig S (tracee dbg)" "holds_bps hm orig S (breakpoints dbg)" "S \<subseteq> S" "spaced S"
    using assms(4,5) by (simp_all add: bp_inv_parts)
  from step_over_run(2) [OF assms(1,3) inv assms(6,7), of ret] obtain k bp where
    k: "step_over_breakpoint ret tr hm dbg = step_and_rearm tr bp (dbg\<lparr>tracee := k\<rparr>)"
      "code_patched mem C orig (S - {pc}) (tracee (dbg\<lparr>tracee := k\<rparr>))" by auto
  from step_and_rearm_result [OF assms(1,2) k(2) assms(9) [unfolded k(1)]] assms(10)
  have "same_store dbg dbg'" "code_patched mem C orig (S - {pc}) (tracee dbg')" by (auto simp: same_store_def)
  with bp_inv_get(2) [OF assms(4,7)] assms(8) show ?thesis by (auto simp: same_store_def code_patched_def)
qed

theorem step_over_failure_disarms_witness:
  "\<exists>(dbg :: (sim, addr \<Rightarrow> Breakpoint option, unit) Debugger) dbg'.
     step_over_breakpoint 7 (sim_tracer\<lparr>tr_siginfo := \<lambda>_. (0, 11, 1)\<rparr>) map_hm dbg = (-1, dbg')
     \<and> sim_mem (tracee dbg) 0x1000 = 0xcc \<and> sim_mem (tracee dbg') 0x1000 = 0x90"
proof -
  let ?tr = "sim_tracer\<lparr>tr_siginfo := \<lambda>_. (0, 11, 1)\<rparr>"
  from sim_at_breakpoint obtain dbg :: "(sim, addr \<Rightarrow> Breakpoint option, unit) Debugger" where
    d: "bp_inv map_hm sim_mem UNIV (\<lambda>_. 0x90) {0x1000} dbg" "rip (sim_regs (tracee dbg)) = 0x1000" by blast
  have sp: "spaced {0x1000}" by (simp add: spaced_def)
  from sim_step_over(2) [OF d] obtain dbg' where run: "step_over_breakpoint 7 ?tr map_hm dbg = (-1, dbg')"
    by (metis prod.collapse)
  from step_over_failure_disarms [OF sim_process_si sim_runs(1) map_hm_ok d(1) sp refl _ _ run] d(2)
    bp_inv_mem [OF d(1), of "0x1000"] run show ?thesis
    by - (rule exI [of _ dbg], rule exI [of _ dbg'], simp add: bp_inv_mem)
qed

end
