(* ===== verification/Commands.thy ===== *)
theory Commands
  imports Stepping
begin

section \<open>Registers, memory, position and call chain (\<^verbatim>\<open>debugger/debugger.c\<close>)\<close>

text \<open>
  The \<open>reg\<close>, \<open>peek\<close>, \<open>where\<close> and \<open>backtrace\<close> commands, which read the stopped process and print.
  The register tables that \<open>main\<close> loads are the parameter \<open>t\<close>.
\<close>

subsection \<open>The register command\<close>

text \<open>
  The register that an argument names: by abbreviation, or by DWARF number in the given base, which
  is cut to an \<open>int\<close>. Any other mode leaves the variable indeterminate, \<open>reg0\<close>.
\<close>

definition register_arg :: "reg_tables \<Rightarrow> REGISTER \<Rightarrow> nat \<Rightarrow> REGISTER_OPTIONS \<Rightarrow> nat \<Rightarrow> string \<Rightarrow> Buffer
    \<Rightarrow> C_int + REGISTER" where
  "register_arg t reg0 b mode p arg buffer =
    (if mode = REGISTER_ARG_ABBR then Inr (abbr_to_reg t arg)
     else if mode = REGISTER_ARG_DWARF then
       (case strtoll b arg of (n, rest) \<Rightarrow>
          if trailing_text p arg rest buffer then Inl INVALID_COMMAND
          else Inr (DW_to_reg t (sint (word_of_int n :: 32 word))))
     else Inr reg0)"

definition read_register :: "reg_tables \<Rightarrow> REGISTER \<Rightarrow> regs_struct \<Rightarrow> ('k, 'm, 'h, 'z) Debugger_scheme \<Rightarrow> REGISTER_OPTIONS
    \<Rightarrow> nat option \<times> string option \<Rightarrow> Buffer \<Rightarrow> (C_int \<times> ('k, 'm, 'h, 'z) Debugger_scheme) run" where
  "read_register t reg0 regs dbg mode arg buffer =
    (if mode = REGISTER_ARG_ALL then
       (case arg of
          (Some _, Some s) \<Rightarrow> Value (INVALID_COMMAND, fprintf ''invalid arg %s'' [OStr s] dbg)
        | _ \<Rightarrow> run_bind (run_of (print_registers t regs)) (\<lambda>rows.
            Value (0, foldl (\<lambda>dbg (abbr, v). fprintf ''%-12s:%llx'' [OStr abbr, OHex v] dbg) dbg rows)))
     else (case arg of
         (Some p, Some s) \<Rightarrow>
           (case register_arg t reg0 16 mode p s buffer of
              Inl res \<Rightarrow> Value (res, dbg)
            | Inr reg \<Rightarrow>
                if reg = of_int NO_SUCH_REGISTER then Value (1, dbg)
                else (case get_register reg of
                    (res, None) \<Rightarrow> Value (res, dbg)
                  | (_, Some (load, _)) \<Rightarrow> Value (0, fprintf ''value :%llx'' [OHex (load regs)] dbg)))
       | _ \<Rightarrow> Value (INVALID_COMMAND, dbg)))"

text \<open>The result of \<open>set_reg_value\<close> is not looked at.\<close>

definition write_register :: "reg_tables \<Rightarrow> REGISTER \<Rightarrow> 'k tracer \<Rightarrow> ('k, 'm, 'h, 'z) Debugger_scheme \<Rightarrow> REGISTER_OPTIONS
    \<Rightarrow> nat option \<times> string option \<Rightarrow> Buffer \<Rightarrow> (C_int \<times> ('k, 'm, 'h, 'z) Debugger_scheme) run" where
  "write_register t reg0 tr dbg mode arg buffer =
    (case arg of
       (Some p, Some s) \<Rightarrow>
         (case register_arg t reg0 10 mode p s buffer of
            Inl res \<Rightarrow> Value (res, dbg)
          | Inr reg \<Rightarrow>
              if reg = of_int NO_SUCH_REGISTER then Value (1, dbg)
              else run_bind (take_token buffer) (\<lambda>(p, s, buffer).
                case (p, s) of
                  (Some p, Some s) \<Rightarrow>
                    (case strtoll 10 s of (v, rest) \<Rightarrow>
                       if trailing_text p s rest buffer then Value (INVALID_COMMAND, dbg)
                       else Value (0, snd (set_reg_value tr dbg reg (word_of_int v))))
                | _ \<Rightarrow> Value (INVALID_COMMAND, dbg)))
     | _ \<Rightarrow> Value (INVALID_COMMAND, dbg))"

definition handle_register :: "reg_tables \<Rightarrow> REGISTER \<Rightarrow> 'k tracer \<Rightarrow> ('k, 'm, 'h, 'z) Debugger_scheme \<Rightarrow> Buffer
    \<Rightarrow> (C_int \<times> ('k, 'm, 'h, 'z) Debugger_scheme) run" where
  "handle_register t reg0 tr dbg buffer =
    run_bind (take_token buffer) (\<lambda>(_, s1, buffer).
    run_bind (take_token buffer) (\<lambda>(_, s2, buffer).
      let action = match_register_option s1; mode = match_register_option s2 in
      if action = INVALID_REGISTER_OPT \<or> mode = INVALID_REGISTER_OPT then Value (1, dbg)
      else run_bind (take_token buffer) (\<lambda>(p, s, buffer).
        case get_regs_struct tr dbg of (res, regs) \<Rightarrow>
          if res \<noteq> 0 then Value (res, dbg)
          else if action = READ_REGISTER then read_register t reg0 regs dbg mode (p, s) buffer
          else if action = WRITE_REGISTER then write_register t reg0 tr dbg mode (p, s) buffer
          else Value (INVALID_COMMAND, dbg))))"

subsection \<open>The peek command\<close>

definition handle_peek :: "'k tracer \<Rightarrow> ('k, 'm, 'h, 'z) Debugger_scheme \<Rightarrow> Buffer
    \<Rightarrow> (C_int \<times> ('k, 'm, 'h, 'z) Debugger_scheme) run" where
  "handle_peek tr dbg buffer =
    run_bind (take_token buffer) (\<lambda>(_, s, buffer).
      case s of None \<Rightarrow> Value (1, dbg)
      | Some arg \<Rightarrow>
        (case strtoll 16 arg of (a, argEnd) \<Rightarrow>
           if argEnd \<noteq> [] then Value (INVALID_COMMAND, dbg)
           else (case ptrace_peek_data tr dbg (word_of_int a) of (res, d) \<Rightarrow>
             if res \<noteq> 0 then Value (1, dbg)
             else Value (0, fprintf ''Data: %llx'' [OHex d] dbg))))"

subsection \<open>The where command\<close>

definition get_subprog_name :: "nat \<Rightarrow> ('h, 'd, 'c, 'l, 'y) dwarf_lib_scheme \<Rightarrow> ('k, 'm, 'h, 'z) Debugger_scheme \<Rightarrow> WORD
    \<Rightarrow> (C_int \<times> string option \<times> ('k, 'm, 'h, 'z) Debugger_scheme) run" where
  "get_subprog_name fuel lib dbg a =
    run_bind (get_sub_prog_die_from_addr fuel lib (a - load_address dbg) (dwarf_dbg dbg)) (\<lambda>(res, sub_prog_die, h).
      let dbg = dbg\<lparr>dwarf_dbg := h\<rparr> in
      if res = DW_DLV_ERROR then Value (1, None, fprintf ''error: %s'' [OStr ''dwarf_errmsg''] dbg)
      else (case get_sub_program_name lib sub_prog_die of (res, func_name) \<Rightarrow>
        if res = DW_DLV_ERROR then Value (1, None, dbg)
        else if res = DW_DLV_NO_ENTRY then Value (1, None, dbg)
        else Value (0, Some func_name, dbg)))"

text \<open>
  \<open>get_line_no_from_addr\<close> reports an error of its own when the address is below all rows; then no
  error object exists, and \<open>dwarf_errmsg\<close> is called with an indeterminate pointer. \<open>error_unset\<close>, which
  repeats the search, is the condition for this; it translates no code of its own.
\<close>

definition error_unset :: "nat \<Rightarrow> ('h, 'd, 'c, 'l, 'y) dwarf_lib_scheme \<Rightarrow> UWORD \<Rightarrow> 'h \<Rightarrow> bool" where
  "error_unset fuel lib addr_offset h =
    (case get_cu_from_addr fuel lib addr_offset h of
       Value (res, cu_die, _) \<Rightarrow> res \<noteq> DW_DLV_ERROR \<and>
         (case get_line_iterator lib cu_die of (res, it) \<Rightarrow> res = DW_DLV_OK \<and>
            fst (search_addr_in_lines lib (attach_cu_die it cu_die) addr_offset) = DW_DLV_NO_ENTRY)
     | _ \<Rightarrow> False)"

definition handle_where :: "nat \<Rightarrow> 'k tracer \<Rightarrow> ('h, 'd, 'c, 'l, 'y) dwarf_lib_scheme \<Rightarrow> ('k, 'm, 'h, 'z) Debugger_scheme
    \<Rightarrow> Buffer \<Rightarrow> (C_int \<times> ('k, 'm, 'h, 'z) Debugger_scheme) run" where
  "handle_where fuel tr lib dbg buffer =
    run_bind (take_token buffer) (\<lambda>(_, s, buffer).
      case s of None \<Rightarrow> Value (1, dbg)
      | Some arg \<Rightarrow> run_bind (run_of (match_where_option (Some arg))) (\<lambda>mode.
        case get_reg_value tr dbg REG_rip of
          (res, None) \<Rightarrow> Value (res, dbg)
        | (_, Some pc) \<Rightarrow>
          if mode = WHERE_ARG_ADDR then
            Value (0, fprintf ''Program Counter: %llx Offset: %llx'' [OHex pc, OHex (pc - load_address dbg)] dbg)
          else if mode = WHERE_ARG_FUNC then
            run_bind (get_subprog_name fuel lib dbg pc) (\<lambda>(res, func_name, dbg).
              case func_name of None \<Rightarrow> Value (res, dbg)
              | Some func_name \<Rightarrow> Value (0, fprintf ''Current function: %s'' [OStr func_name] dbg))
          else if mode = WHERE_ARG_LINE then
            run_bind (get_line_no_from_addr fuel lib (pc - load_address dbg) (dwarf_dbg dbg)) (\<lambda>(res, line_no, h).
              let dbg' = dbg\<lparr>dwarf_dbg := h\<rparr> in
              if res = DW_DLV_ERROR then
                (if error_unset fuel lib (pc - load_address dbg) (dwarf_dbg dbg) then Crash_run
                 else Value (1, fprintf ''error: %s'' [OStr ''dwarf_errmsg''] dbg'))
              else (case line_no of None \<Rightarrow> Value (1, dbg')
                | Some line_no \<Rightarrow> Value (0, fprintf ''Current line: %lli'' [OInt (sint line_no)] dbg')))
          else Value (1, dbg)))"

subsection \<open>The backtrace command\<close>

abbreviation (input) UNW_ENOINFO :: int where "UNW_ENOINFO \<equiv> 10"

definition get_preserved_registers :: "('k, 'u) unwinder \<Rightarrow> 'k \<Rightarrow> 'u \<Rightarrow> C_int \<times> UWORD \<times> UWORD" where
  "get_preserved_registers uw k cursor =
    (case unw_get_ip uw k cursor of (res, ip) \<Rightarrow>
       if res < 0 then (1, ip, 0)
       else (case unw_get_sp uw k cursor of (res, sp) \<Rightarrow>
         if res < 0 then (1, ip, sp) else (0, ip, sp)))"

text \<open>A frame without a name is passed over: \<open>continue\<close> goes on with the condition of the loop.\<close>

fun backtrace_loop :: "nat \<Rightarrow> ('k, 'u) unwinder \<Rightarrow> 'u \<Rightarrow> ('k, 'm, 'h, 'z) Debugger_scheme
    \<Rightarrow> (C_int \<times> ('k, 'm, 'h, 'z) Debugger_scheme) run" where
  "backtrace_loop 0 uw cursor dbg = NoFuel"
| "backtrace_loop (Suc fuel) uw cursor dbg =
    (let step = (\<lambda>dbg. case unw_step uw (tracee dbg) cursor of (res, cursor') \<Rightarrow>
           if res > 0 then backtrace_loop fuel uw cursor' dbg
           else if res < 0 then Value (1, fprintf ''error reading ip: %i'' [OInt (- res)] dbg)
           else Value (0, dbg))
     in case get_preserved_registers uw (tracee dbg) cursor of (res, ip, sp) \<Rightarrow>
       if res \<noteq> 0 then Value (1, fprintf ''error reading caller registers: %i'' [OInt (- res)] dbg)
       else (case unw_get_proc_name uw (tracee dbg) cursor of (res, nm, offset) \<Rightarrow>
         if res < 0 then
           (if res = - UNW_ENOINFO then step dbg
            else Value (1, fprintf ''error reading name: %i'' [OInt (- res)] dbg))
         else step (fprintf ''(%s+0x%lx)'' [OStr nm, OHex offset] (fprintf ''ip:%llx sp:%llx'' [OHex ip, OHex sp] dbg))))"

definition backtrace :: "nat \<Rightarrow> ('k, 'u) unwinder \<Rightarrow> ('k, 'm, 'h, 'z) Debugger_scheme
    \<Rightarrow> (C_int \<times> ('k, 'm, 'h, 'z) Debugger_scheme) run" where
  "backtrace fuel uw dbg =
    (case unw_init_remote uw (tracee dbg) of (res, cursor) \<Rightarrow>
       if res < 0 then Value (1, dbg) else backtrace_loop fuel uw cursor dbg)"


subsection \<open>Tokens of a command\<close>

lemma take_token_next:
  assumes "holds_tokens b (t # ts)"
  shows "\<exists>p b'. take_token b = Value (Some p, Some t, b') \<and> holds_tokens b' ts \<and> rseek b' = p + Suc (length t)"
  using holds_tokens_next [OF assms] by (auto simp: take_token_def run_of_def)

lemma take_token_end: "holds_tokens b [] \<Longrightarrow> take_token b = Value (None, None, b)"
  by (simp add: take_token_def run_of_def holds_tokens_end tok_str_def)

lemma whole_token: "rseek b = p + Suc (length t) \<Longrightarrow> \<not> trailing_text p t [] b"
  by (simp add: trailing_text_def)

subsection \<open>The register command\<close>

text \<open>
  Claim C9. \<open>reg write s\<close> followed by \<open>reg read s\<close>, on any register but \<open>r14\<close>. The first asks the kernel for the
  registers \<open>r\<close>, which are the ones of the process with this one replaced by the number, changes no memory,
  and ends with 0 whatever the kernel answers, a refusal included. The second prints what the
  register holds then. For the integer registers but \<open>r14\<close>, the stack pointer and the program counter this is the
  number that was written, and the other registers are as they were.
\<close>

theorem register_command_roundtrip:
  assumes "process_ok tr mem regs" "load_DW_mappings = Some t"
    and "reg < NUM_REGISTERS" "reg \<noteq> REG_r14" "abbr = registerAbbr t ! unat reg"
    and "holds_tokens b1 [''write'', ''s'', abbr, s]" "strtoll 10 s = (v, [])"
    and "holds_tokens b2 [''read'', ''s'', abbr]"
    and "regs_array r = (regs_array (regs (tracee dbg)))[unat reg := word_of_int v]"
    and "tr_setregs tr (tracee dbg) r = (code, k)"
  shows "handle_register t reg0 tr dbg b1 = Value (0, dbg\<lparr>tracee := k\<rparr>) \<and> mem k = mem (tracee dbg)
    \<and> handle_register t reg0 tr (dbg\<lparr>tracee := k\<rparr>) b2 =
        Value (0, fprintf ''value :%llx'' [OHex (regs_array (regs k) ! unat reg)] (dbg\<lparr>tracee := k\<rparr>))
    \<and> (user_register reg \<longrightarrow> regs k = r \<and> regs_array (regs k) ! unat reg = word_of_int v)"
proof -
  have t: "t = loaded_tables" using assms(2) by (simp add: load_DW_mappings_table)
  have r: "abbr_to_reg t abbr = reg" unfolding assms(5) t by (rule abbr_to_reg_of [OF assms(3)])
  have ne: "reg \<noteq> of_int NO_SUCH_REGISTER" using assms(4) by (simp add: NO_SUCH_REGISTER_def)
  note G = process_okD(6) [OF assms(1)]
  from set_reg_run [OF assms(1,3,9,10)] obtain load store where
    k: "set_reg_value tr dbg reg (word_of_int v) = (if code = -1 then PTRACE_ERROR else 0, dbg\<lparr>tracee := k\<rparr>)"
      "mem k = mem (tracee dbg)" "get_register reg = (0, Some (load, store))" "\<And>s. load s = regs_array s ! unat reg"
      "user_register reg \<longrightarrow> regs k = r" by blast
  have u: "user_register reg \<longrightarrow> regs k = r \<and> regs_array (regs k) ! unat reg = word_of_int v"
    using k(5) assms(3,9) by (simp add: word_less_nat_alt)
  from take_token_next [OF assms(6)] obtain p1 c1 where
    c1: "take_token b1 = Value (Some p1, Some ''write'', c1)" "holds_tokens c1 [''s'', abbr, s]" by blast
  from take_token_next [OF c1(2)] obtain p2 c2 where
    c2: "take_token c1 = Value (Some p2, Some ''s'', c2)" "holds_tokens c2 [abbr, s]" by blast
  from take_token_next [OF c2(2)] obtain p3 c3 where
    c3: "take_token c2 = Value (Some p3, Some abbr, c3)" "holds_tokens c3 [s]" by blast
  from take_token_next [OF c3(2)] obtain p4 c4 where
    c4: "take_token c3 = Value (Some p4, Some s, c4)" "rseek c4 = p4 + Suc (length s)" by blast
  have w: "handle_register t reg0 tr dbg b1 = Value (0, dbg\<lparr>tracee := k\<rparr>)"
    using c1 c2 c3 c4 whole_token [OF c4(2)] k(1) r ne assms(7) G
    by (simp add: handle_register_def match_register_option_def write_register_def register_arg_def get_regs_struct_def)
  from take_token_next [OF assms(8)] obtain p1 c1 where
    c1: "take_token b2 = Value (Some p1, Some ''read'', c1)" "holds_tokens c1 [''s'', abbr]" by blast
  from take_token_next [OF c1(2)] obtain p2 c2 where
    c2: "take_token c1 = Value (Some p2, Some ''s'', c2)" "holds_tokens c2 [abbr]" by blast
  from take_token_next [OF c2(2)] obtain p3 c3 where c3: "take_token c2 = Value (Some p3, Some abbr, c3)" by blast
  have "handle_register t reg0 tr (dbg\<lparr>tracee := k\<rparr>) b2 =
        Value (0, fprintf ''value :%llx'' [OHex (regs_array (regs k) ! unat reg)] (dbg\<lparr>tracee := k\<rparr>))"
    using c1 c2 c3 k(3,4) r ne G
    by (simp add: handle_register_def match_register_option_def read_register_def register_arg_def get_regs_struct_def)
  with w k(2) u show ?thesis by blast
qed

definition token_buffer :: "string list \<Rightarrow> Buffer" where
  "token_buffer ts = \<lparr>data = Some (enc ts @ [NUL]), buf_size = length (enc ts), rseek = 0, wseek = length (enc ts)\<rparr>"

lemma token_buffer_holds:
  assumes "ts \<noteq> []" "\<forall>t\<in>set ts. t \<noteq> [] \<and> NUL \<notin> set t"
  shows "holds_tokens (token_buffer ts) ts"
proof -
  have "enc ts \<noteq> []" using assms(1) by (cases ts) simp_all
  with assms(2) show ?thesis
    by (simp add: holds_tokens_def token_buffer_def cmd_buf_def written_def nth_append)
qed

text \<open>A kernel that refuses to change a protected register.\<close>

definition strict_tracer :: "sim tracer" where
  "strict_tracer = sim_tracer\<lparr>tr_setregs := \<lambda>k r. if same_protected r (sim_regs k) then (0, k\<lparr>sim_regs := r\<rparr>) else (-1, k)\<rparr>"

lemma strict_process: "process_ok strict_tracer sim_mem sim_regs"
  using sim_process by (simp add: process_ok_def strict_tracer_def)

definition strict_dbg :: "(sim, unit, unit) Debugger" where
  "strict_dbg = (sim_dbg () ())\<lparr>tracee := sim_start\<lparr>sim_regs := (sim_regs sim_start)\<lparr>cs := 0x33\<rparr>\<rparr>\<rparr>"

theorem register_command_roundtrip_witness:
  "\<exists>k. handle_register loaded_tables 0 strict_tracer strict_dbg (token_buffer [''write'', ''s'', ''rbx'', ''7'']) =
      Value (0, strict_dbg\<lparr>tracee := k\<rparr>)
    \<and> handle_register loaded_tables 0 strict_tracer (strict_dbg\<lparr>tracee := k\<rparr>) (token_buffer [''read'', ''s'', ''rbx'']) =
      Value (0, fprintf ''value :%llx'' [OHex 7] (strict_dbg\<lparr>tracee := k\<rparr>))
    \<and> handle_register loaded_tables 0 strict_tracer strict_dbg (token_buffer [''write'', ''s'', ''cs'', ''7'']) =
      Value (0, strict_dbg)
    \<and> handle_register loaded_tables 0 strict_tracer strict_dbg (token_buffer [''read'', ''s'', ''cs'']) =
      Value (0, fprintf ''value :%llx'' [OHex 0x33] strict_dbg)"
proof -
  have n: "strtoll 10 ''7'' = (7, [])"
    by (simp add: strtoll_def is_space_def skip_0x_def is_digit_def digit_of_def digits_val_def clamp_ll_def)
  have a: "''rbx'' = registerAbbr loaded_tables ! unat REG_rbx" "''cs'' = registerAbbr loaded_tables ! unat REG_cs"
    by (simp_all add: loaded_tables_def register_info_def)
  let ?s = "sim_regs (tracee strict_dbg)"
  have r: "regs_array (?s\<lparr>rbx := 7\<rparr>) = (regs_array ?s)[unat REG_rbx := word_of_int 7]"
    "regs_array (?s\<lparr>cs := 7\<rparr>) = (regs_array ?s)[unat REG_cs := word_of_int 7]"
    "regs_array ?s ! unat REG_cs = 0x33" by (simp_all add: regs_array_def strict_dbg_def)
  have t: "tr_setregs strict_tracer (tracee strict_dbg) (?s\<lparr>cs := 7\<rparr>) = (-1, tracee strict_dbg)"
    by (simp add: strict_tracer_def same_protected_def strict_dbg_def)
  obtain code k where k: "tr_setregs strict_tracer (tracee strict_dbg) (?s\<lparr>rbx := 7\<rparr>) = (code, k)" by (rule prod.exhaust)
  note c = register_command_roundtrip [OF strict_process load_DW_mappings_table]
  have reg: "REG_rbx < NUM_REGISTERS" "REG_rbx \<noteq> REG_r14" "REG_cs < NUM_REGISTERS" "REG_cs \<noteq> REG_r14"
    "user_register REG_rbx" by (simp_all add: user_register_def)
  have same: "strict_dbg\<lparr>tracee := tracee strict_dbg\<rparr> = strict_dbg" by simp
  have b: "holds_tokens (token_buffer [''write'', ''s'', ''rbx'', ''7'']) [''write'', ''s'', ''rbx'', ''7'']"
    "holds_tokens (token_buffer [''read'', ''s'', ''rbx'']) [''read'', ''s'', ''rbx'']"
    "holds_tokens (token_buffer [''write'', ''s'', ''cs'', ''7'']) [''write'', ''s'', ''cs'', ''7'']"
    "holds_tokens (token_buffer [''read'', ''s'', ''cs'']) [''read'', ''s'', ''cs'']"
    by (rule token_buffer_holds; simp)+
  have rbx: "word_of_int 7 = (7 :: UWORD)" by simp
  show ?thesis
    using c [OF reg(1,2) a(1) b(1) n b(2) r(1) k, of 0] c [OF reg(3,4) a(2) b(3) n b(4) r(2) t, of 0] reg(5)
    unfolding same r(3) rbx by metis
qed

text \<open>
  Claim C40. Register \<open>r14\<close> cannot be named: its number is the code for an unknown register, so that reading and
  writing it are refused with code 1 and nothing changes.
\<close>

theorem register_command_r14:
  assumes "process_ok tr mem regs" "load_DW_mappings = Some t"
    and "action = ''read'' \<or> action = ''write''" "holds_tokens b (action # ''s'' # ''r14'' # rest)"
  shows "handle_register t reg0 tr dbg b = Value (1, dbg)"
proof -
  have t: "t = loaded_tables" using assms(2) by (simp add: load_DW_mappings_table)
  have "registerAbbr loaded_tables ! unat REG_r14 = ''r14''" by (simp add: loaded_tables_def register_info_def)
  with abbr_to_reg_of [of REG_r14] have r: "abbr_to_reg t ''r14'' = REG_r14" by (simp add: t)
  note G = process_okD(6) [OF assms(1)]
  from take_token_next [OF assms(4)] obtain p1 c1 where
    c1: "take_token b = Value (Some p1, Some action, c1)" "holds_tokens c1 (''s'' # ''r14'' # rest)" by blast
  from take_token_next [OF c1(2)] obtain p2 c2 where
    c2: "take_token c1 = Value (Some p2, Some ''s'', c2)" "holds_tokens c2 (''r14'' # rest)" by blast
  from take_token_next [OF c2(2)] obtain p3 c3 where c3: "take_token c2 = Value (Some p3, Some ''r14'', c3)" by blast
  show ?thesis
    using assms(3) c1 c2 c3 r G
    by (auto simp: handle_register_def match_register_option_def read_register_def write_register_def
        register_arg_def get_regs_struct_def NO_SUCH_REGISTER_def)
qed

theorem register_command_r14_witness:
  "handle_register loaded_tables 0 sim_tracer (sim_dbg () ()) (token_buffer [''read'', ''s'', ''r14'']) =
     Value (1, sim_dbg () ())"
  by (rule register_command_r14 [OF sim_process load_DW_mappings_table, where action = "''read''" and rest = "[]"])
     (simp_all add: token_buffer_holds)

subsection \<open>The peek command\<close>

lemma strtoll_print_llx: "strtoll 16 (print_llx a) = (min (uint a) (2 ^ 63 - 1), [])"
  using strtoll_nat_text(1) [of 14 "unat a"] uint_ge_0 [of a]
  by (simp add: print_llx_def clamp_ll_def min.commute max_def)

text \<open>
  Claim C36. \<open>peek\<close> on the text of an address, as the debugger prints addresses, shows the eight bytes of the
  process there, provided that the address is below $2^{63}$; every address above is cut to
  $2^{63} - 1$ by the signed conversion.
\<close>

theorem peek_command_address:
  assumes "process_ok tr mem regs" "holds_tokens b [print_llx a]"
  shows "\<exists>d. handle_peek tr dbg b = Value (0, fprintf ''Data: %llx'' [OHex d] dbg)
    \<and> (\<forall>j<8. byte_of d j = mem (tracee dbg) ((if a < 2 ^ 63 then a else 2 ^ 63 - 1) + of_nat j))"
proof -
  let ?a = "if a < 2 ^ 63 then a else 2 ^ 63 - 1"
  have a: "word_of_int (min (uint a) (2 ^ 63 - 1)) = ?a"
    by (auto simp: word_less_def min_def)
  from take_token_next [OF assms(2)] obtain p b' where
    t: "take_token b = Value (Some p, Some (print_llx a), b')" by blast
  let ?d = "fst (tr_peek tr (tracee dbg) ?a)"
  have "ptrace_peek_data tr dbg ?a = (0, ?d)"
    using process_okD(1) [OF assms(1), of "tracee dbg" ?a] by (simp add: ptrace_peek_data_def case_prod_beta)
  with t a have "handle_peek tr dbg b = Value (0, fprintf ''Data: %llx'' [OHex ?d] dbg)"
    by (simp add: handle_peek_def strtoll_print_llx)
  with process_okD(2) [OF assms(1)] show ?thesis by blast
qed

theorem peek_command_address_witness:
  "\<exists>d. handle_peek sim_tracer (sim_dbg () ()) (token_buffer [print_llx 0x1010]) =
      Value (0, fprintf ''Data: %llx'' [OHex d] (sim_dbg () ())) \<and> byte_of d 3 = 0x90"
proof -
  have "holds_tokens (token_buffer [print_llx a]) [print_llx a]" for a
    by (intro token_buffer_holds) (simp_all add: print_llx_def nat_text_clean)
  note this [of "0x1010"]
  from peek_command_address [OF sim_process this, of "sim_dbg () ()"] show ?thesis
    by (auto simp: sim_dbg_def sim_start_def)
qed

subsection \<open>The call chain\<close>

text \<open>
  The cursors of the frames, innermost first; \<open>unw_step\<close> of the last one returns 0. What is printed
  of a frame.
\<close>

fun unw_chain :: "('k, 'u) unwinder \<Rightarrow> 'k \<Rightarrow> 'u list \<Rightarrow> bool" where
  "unw_chain uw k [] = False"
| "unw_chain uw k [c] = (fst (unw_step uw k c) = 0)"
| "unw_chain uw k (c # c' # us) = (fst (unw_step uw k c) > 0 \<and> snd (unw_step uw k c) = c' \<and> unw_chain uw k (c' # us))"

definition frame_lines :: "('k, 'u) unwinder \<Rightarrow> 'k \<Rightarrow> 'u \<Rightarrow> printed list" where
  "frame_lines uw k c =
    (case unw_get_proc_name uw k c of (res, nm, offset) \<Rightarrow>
       if res < 0 then []
       else [(''ip:%llx sp:%llx'', [OHex (snd (unw_get_ip uw k c)), OHex (snd (unw_get_sp uw k c))]),
             (''(%s+0x%lx)'', [OStr nm, OHex offset])])"

definition frame_ok :: "('k, 'u) unwinder \<Rightarrow> 'k \<Rightarrow> 'u \<Rightarrow> bool" where
  "frame_ok uw k c \<longleftrightarrow> 0 \<le> fst (unw_get_ip uw k c) \<and> 0 \<le> fst (unw_get_sp uw k c)
     \<and> (0 \<le> fst (unw_get_proc_name uw k c) \<or> fst (unw_get_proc_name uw k c) = - UNW_ENOINFO)"

lemma backtrace_frame:
  assumes "frame_ok uw (tracee dbg) c"
  shows "backtrace_loop (Suc fuel) uw c dbg =
    (let dbg = dbg\<lparr>out := out dbg @ frame_lines uw (tracee dbg) c\<rparr> in
     case unw_step uw (tracee dbg) c of (res, c') \<Rightarrow>
       if res > 0 then backtrace_loop fuel uw c' dbg
       else if res < 0 then Value (1, fprintf ''error reading ip: %i'' [OInt (- res)] dbg)
       else Value (0, dbg))"
proof -
  obtain r1 ip where 1: "unw_get_ip uw (tracee dbg) c = (r1, ip)" by (rule prod.exhaust)
  obtain r2 sp where 2: "unw_get_sp uw (tracee dbg) c = (r2, sp)" by (rule prod.exhaust)
  obtain r3 nm off where 3: "unw_get_proc_name uw (tracee dbg) c = (r3, nm, off)" by (rule prod_cases3)
  show ?thesis using assms 1 2 3
    by (auto simp: frame_ok_def get_preserved_registers_def frame_lines_def fprintf_def Let_def split: prod.split)
qed

lemma backtrace_chain:
  "unw_chain uw (tracee dbg) us \<Longrightarrow> \<forall>c\<in>set us. frame_ok uw (tracee dbg) c \<Longrightarrow> length us \<le> fuel \<Longrightarrow>
   backtrace_loop fuel uw (hd us) dbg =
     Value (0, dbg\<lparr>out := out dbg @ concat (map (frame_lines uw (tracee dbg)) us)\<rparr>)"
proof (induction uw "tracee dbg" us arbitrary: dbg fuel rule: unw_chain.induct)
  case (2 uw c)
  then obtain f where "fuel = Suc f" by (cases fuel) simp_all
  with 2 show ?case by (simp add: backtrace_frame Let_def case_prod_beta del: backtrace_loop.simps)
next
  case (3 uw c c' us)
  then obtain f where f: "fuel = Suc f" "length (c' # us) \<le> f" by (cases fuel) simp_all
  let ?dbg = "dbg\<lparr>out := out dbg @ frame_lines uw (tracee dbg) c\<rparr>"
  have "backtrace_loop fuel uw c dbg = backtrace_loop f uw c' ?dbg"
    using 3(2,3) f by (simp add: backtrace_frame Let_def case_prod_beta del: backtrace_loop.simps)
  also have "\<dots> = Value (0, ?dbg\<lparr>out := out ?dbg @ concat (map (frame_lines uw (tracee ?dbg)) (c' # us))\<rparr>)"
    using 3(1) [of ?dbg f] 3(2,3) f(2) by simp
  finally show ?case by simp
qed simp

text \<open>
  Claim C35. The \<open>backtrace\<close> command ends, given as much fuel as there are frames, and prints every frame that
  has a name, innermost first.
\<close>

theorem backtrace_prints_frames:
  assumes "unw_init_remote uw (tracee dbg) = (0, c)" "us = c # us'" "unw_chain uw (tracee dbg) us"
    and "\<forall>c\<in>set us. frame_ok uw (tracee dbg) c" "length us \<le> fuel"
  shows "backtrace fuel uw dbg = Value (0, dbg\<lparr>out := out dbg @ concat (map (frame_lines uw (tracee dbg)) us)\<rparr>)"
  using backtrace_chain [OF assms(3-5)] assms(1,2) by (simp add: backtrace_def)

definition chain_unwinder :: "(sim, string list) unwinder" where
  "chain_unwinder = \<lparr>unw_init_remote = (\<lambda>_. (0, [''f'', ''main''])),
     unw_step = (\<lambda>_ c. (if length c \<le> 1 then 0 else 1, tl c)), unw_get_ip = (\<lambda>_ c. (0, 0x1000)),
     unw_get_sp = (\<lambda>_ c. (0, 0x7000)), unw_get_proc_name = (\<lambda>_ c. (0, hd c, 4))\<rparr>"

theorem backtrace_prints_frames_witness:
  "\<exists>dbg'. backtrace 2 chain_unwinder (sim_dbg () ()) = Value (0, dbg')
     \<and> map (last \<circ> snd) (out dbg') = [OHex 0x7000, OHex 4, OHex 0x7000, OHex 4] \<and> snd (out dbg' ! 3) = [OStr ''main'', OHex 4]"
  using backtrace_prints_frames [where uw = chain_unwinder and dbg = "sim_dbg () ()" and c = "[''f'', ''main'']"
      and us' = "[[''main'']]" and fuel = 2, OF _ refl]
  by (simp add: chain_unwinder_def frame_ok_def frame_lines_def sim_dbg_def)

end
