(* ===== verification/Variables.thy ===== *)
theory Variables
  imports Commands Eval_Expr Die_Search
begin

section \<open>Printing variables (\<^verbatim>\<open>debugger/debugger.c\<close>)\<close>

text \<open>
  The \<open>var\<close> command: the location of a variable, its type, and its value as text. The part of libdwarf
  about attributes, location lists and types extends the record of \<^verbatim>\<open>Dwarf_Info\<close>: attributes are
  \<open>'a\<close>, heads of location lists \<open>'e\<close>. The text of a floating-point number is the parameter
  \<open>show_float\<close> on its 64 bits.
\<close>

record ('h, 'd, 'c, 'l, 'a, 'e) dwarf_vars = "('h, 'd, 'c, 'l) dwarf_lib" +
  die_attr :: "'d option \<Rightarrow> int \<Rightarrow> C_int \<times> 'a"
  get_loclist :: "'a \<Rightarrow> C_int \<times> 'e \<times> nat"
  locdesc_entry :: "'e \<Rightarrow> nat \<Rightarrow> C_int \<times> UWORD \<times> UWORD \<times> nat \<times> fetch_fn"
  formsdata :: "'a \<Rightarrow> C_int \<times> UWORD"
  whatform :: "'a \<Rightarrow> C_int \<times> int"
  dietype_offset :: "'d option \<Rightarrow> C_int \<times> UWORD \<times> bool"
  offdie :: "'h \<Rightarrow> UWORD \<Rightarrow> bool \<Rightarrow> C_int \<times> 'd option"
  bytesize :: "'d option \<Rightarrow> C_int \<times> UWORD"

abbreviation (input) DW_AT_location :: int where "DW_AT_location \<equiv> 0x02"
abbreviation (input) DW_AT_data_member_location :: int where "DW_AT_data_member_location \<equiv> 0x38"
abbreviation (input) DW_AT_decl_line :: int where "DW_AT_decl_line \<equiv> 0x3b"
abbreviation (input) DW_AT_encoding :: int where "DW_AT_encoding \<equiv> 0x3e"
abbreviation (input) DW_AT_frame_base :: int where "DW_AT_frame_base \<equiv> 0x40"
abbreviation (input) DW_AT_data_location :: int where "DW_AT_data_location \<equiv> 0x50"

subsection \<open>What a location expression needs to know\<close>

definition zero_regs :: regs_struct where
  "zero_regs = \<lparr>r15 = 0, r14 = 0, r13 = 0, r12 = 0, rbp = 0, rbx = 0, r11 = 0, r10 = 0, r9 = 0, r8 = 0,
     rax = 0, rcx = 0, rdx = 0, rsi = 0, rdi = 0, orig_rax = 0, rip = 0, cs = 0, eflags = 0, rsp = 0, ss = 0,
     fs_base = 0, gs_base = 0, ds = 0, es = 0, fs = 0, gs = 0\<rparr>"

text \<open>The initialiser of the callers: the fields that it does not name are zero.\<close>

definition new_loc_info :: "('k, 'm, 'h, 'z) Debugger_scheme \<Rightarrow> byte \<Rightarrow> UWORD \<Rightarrow> Loc_Info" where
  "new_loc_info dbg has_initial ini =
    \<lparr>li_c_pid = c_pid dbg, li_load_address = load_address dbg, callee_regs_cur_value = zero_regs,
     callee_regs_entry_value = zero_regs, caller_sp = 0, caller_ip = 0, frame_base = 0, obj_addr = 0,
     inital = ini, h_initial = has_initial\<rparr>"

definition init_loc_info :: "'k tracer \<Rightarrow> ('k, 'u) unwinder \<Rightarrow> ('k, 'm, 'h, 'z) Debugger_scheme \<Rightarrow> Loc_Info
    \<Rightarrow> C_int \<times> Loc_Info" where
  "init_loc_info tr uw dbg li =
    (case get_regs_struct tr dbg of (res, regs) \<Rightarrow>
       let li = li\<lparr>callee_regs_cur_value := regs\<rparr> in
       if res \<noteq> 0 then (res, li)
       else (case unw_init_remote uw (tracee dbg) of (res, cursor) \<Rightarrow>
         if res < 0 then (1, li)
         else (case unw_step uw (tracee dbg) cursor of (res, cursor) \<Rightarrow>
           if res < 0 then (1, li)
           else if res = 0 then (0, li)
           else (case get_preserved_registers uw (tracee dbg) cursor of (res, ip, sp) \<Rightarrow>
             if res \<noteq> 0 then (1, li) else (0, li\<lparr>caller_ip := ip, caller_sp := sp\<rparr>)))))"

subsection \<open>The location of a variable\<close>

text \<open>
  The loop over the location list stops at the first entry whose range, both ends included, holds
  the program counter; when there is none, the values of the last entry are used. The result is an
  error code or the number of operations and their fetch.
\<close>

fun locdesc_loop :: "('h, 'd, 'c, 'l, 'a, 'e, 'y) dwarf_vars_scheme \<Rightarrow> 'e \<Rightarrow> UWORD \<Rightarrow> nat list \<Rightarrow> nat \<times> fetch_fn
    \<Rightarrow> C_int + (nat \<times> fetch_fn)" where
  "locdesc_loop lib head pc [] cur = Inr cur"
| "locdesc_loop lib head pc (i # is) cur =
    (case locdesc_entry lib head i of (res, lopc, hipc, n, fetch) \<Rightarrow>
       if res \<noteq> DW_DLV_OK then Inl 1
       else if lopc \<le> pc \<and> hipc \<ge> pc then Inr (n, fetch)
       else locdesc_loop lib head pc is (n, fetch))"

text \<open>
  The stack starts with the initial entry when there is one; what is pushed is the flag
  \<open>h_initial\<close>. \<open>b0\<close> holds the indeterminate words of the evaluation, \<open>var_addr\<close> is the old content
  of the result. The result is the code and the new \<open>*var_addr\<close>.
\<close>

definition get_var_location :: "nat \<Rightarrow> 'k tracer \<Rightarrow> (nat \<Rightarrow> UWORD) \<Rightarrow> ('h, 'd, 'c, 'l, 'a, 'e, 'y) dwarf_vars_scheme
    \<Rightarrow> ('k, 'm, 'h, 'z) Debugger_scheme \<Rightarrow> Loc_Info \<Rightarrow> 'd option \<Rightarrow> int \<Rightarrow> UWORD \<Rightarrow> (C_int \<times> UWORD) run" where
  "get_var_location fuel tr b0 lib dbg li var_die attr var_addr =
    (let e = init_expr li;
         e = (if h_initial li \<noteq> 0 then snd (push_expr_tkn e (scast (h_initial li))) else e) in
     case die_attr lib var_die attr of (res, location_attr) \<Rightarrow>
       if res \<noteq> DW_DLV_OK then Value (1, var_addr)
       else (case get_loclist lib location_attr of (res, head, lcount) \<Rightarrow>
         if res \<noteq> DW_DLV_OK then Value (1, var_addr)
         else (case locdesc_loop lib head (rip (callee_regs_cur_value li) - li_load_address li) [0..<lcount]
               (0, \<lambda>_. (DW_DLV_ERROR, \<lparr>lo_op = 0, opd1 = 0, opd2 = 0, opd3 = 0, offsetforbranch = 0\<rparr>)) of
             Inl res \<Rightarrow> Value (res, var_addr)
           | Inr (n, fetch) \<Rightarrow>
             (case evaluate_expr fuel (\<lambda>_ a. tr_peek tr (tracee dbg) a) b0 e n fetch 0 var_addr of
                None \<Rightarrow> NoFuel
              | Some Crash \<Rightarrow> Crash_run
              | Some (Ret res v) \<Rightarrow> if res \<noteq> 0 then Value (1, v) else Value (0, v)))))"

subsection \<open>The value of a variable\<close>

abbreviation (input) DW_ATE_address :: int where "DW_ATE_address \<equiv> 1"
abbreviation (input) DW_ATE_boolean :: int where "DW_ATE_boolean \<equiv> 2"
abbreviation (input) DW_ATE_float :: int where "DW_ATE_float \<equiv> 4"
abbreviation (input) DW_ATE_signed :: int where "DW_ATE_signed \<equiv> 5"
abbreviation (input) DW_ATE_signed_char :: int where "DW_ATE_signed_char \<equiv> 6"
abbreviation (input) DW_ATE_unsigned :: int where "DW_ATE_unsigned \<equiv> 7"
abbreviation (input) DW_ATE_unsigned_char :: int where "DW_ATE_unsigned_char \<equiv> 8"

text \<open>The encoding is compared as the signed number that \<^verbatim>\<open>dwarf_formsdata\<close> returns.\<close>

definition base_text :: "(UWORD \<Rightarrow> string) \<Rightarrow> int \<Rightarrow> UWORD \<Rightarrow> string option" where
  "base_text show_float encoding d =
    (if encoding = DW_ATE_boolean then Some (if d \<noteq> 0 then ''true'' else ''false'')
     else if encoding = DW_ATE_address then Some (print_llx d)
     else if encoding = DW_ATE_unsigned \<or> encoding = DW_ATE_unsigned_char then Some (print_llu d)
     else if encoding = DW_ATE_signed \<or> encoding = DW_ATE_signed_char then Some (print_lli d)
     else if encoding = DW_ATE_float then Some (show_float d)
     else None)"

text \<open>The code and what was printed behind the text that is there.\<close>

definition sprint_var_die_given_base :: "'k tracer \<Rightarrow> (UWORD \<Rightarrow> string) \<Rightarrow> ('h, 'd, 'c, 'l, 'a, 'e, 'y) dwarf_vars_scheme
    \<Rightarrow> ('k, 'm, 'h, 'z) Debugger_scheme \<Rightarrow> UWORD \<Rightarrow> 'd option \<Rightarrow> C_int \<times> string" where
  "sprint_var_die_given_base tr show_float lib dbg var_addr type_die =
    (case ptrace_peek_data tr dbg var_addr of (res, d) \<Rightarrow>
       if res \<noteq> 0 then (res, [])
       else (case die_attr lib type_die DW_AT_encoding of (res, at_encoding) \<Rightarrow>
         if res \<noteq> 0 then (res, [])
         else (case formsdata lib at_encoding of (res, encoding) \<Rightarrow>
           if res \<noteq> 0 then (res, [])
           else (case bytesize lib type_die of (res, byte_size) \<Rightarrow>
             if res = DW_DLV_ERROR then (1, [])
             else let byte_size = (if res = DW_DLV_NO_ENTRY then 8 else byte_size) in
               if byte_size > 8 then (1, [])
               else let d = (if byte_size < 8 then d AND (push_bit (unat (8 * byte_size)) 1 - 1) else d) in
                 (case base_text show_float (sint encoding) d of None \<Rightarrow> (1, []) | Some txt \<Rightarrow> (0, txt))))))"

subsection \<open>Types\<close>

abbreviation (input) DW_TAG_base_type :: int where "DW_TAG_base_type \<equiv> 0x24"
abbreviation (input) DW_TAG_structure_type :: int where "DW_TAG_structure_type \<equiv> 0x13"

text \<open>
  The tags whose type is replaced by the type they refer to: atomic, const, immutable, packed,
  pointer, reference, restrict, rvalue reference, shared, volatile, typedef.
\<close>

definition transparent_tag :: "int \<Rightarrow> bool" where
  "transparent_tag tg \<longleftrightarrow> tg \<in> {0x47, 0x26, 0x4b, 0x2d, 0x0f, 0x10, 0x37, 0x42, 0x40, 0x35, 0x16}"

abbreviation (input) DW_FORM_data16 :: int where "DW_FORM_data16 \<equiv> 0x1e"

definition const_form :: "int \<Rightarrow> bool" where
  "const_form f \<longleftrightarrow> f \<in> {0x0b, 0x05, 0x06, 0x07, 0x0d, 0x0f}"

definition expr_form :: "int \<Rightarrow> bool" where
  "expr_form f \<longleftrightarrow> f \<in> {0x18, 0x22, 0x17}"

text \<open>
  The address of a member. The result of \<open>dwarf_attr\<close> is not stored, so that the code in \<open>res\<close> is
  that of \<open>dwarf_diename\<close>; a member with a name but without the attribute leads to the use of an
  indeterminate attribute. The result of the location expression is not looked at either. \<open>Inl\<close> is
  a return from the caller.
\<close>

definition member_address :: "nat \<Rightarrow> 'k tracer \<Rightarrow> (nat \<Rightarrow> UWORD) \<Rightarrow> ('h, 'd, 'c, 'l, 'a, 'e, 'y) dwarf_vars_scheme
    \<Rightarrow> ('k, 'm, 'h, 'z) Debugger_scheme \<Rightarrow> Loc_Info \<Rightarrow> C_int \<Rightarrow> 'd option \<Rightarrow> UWORD \<Rightarrow> (C_int + UWORD) run" where
  "member_address fuel tr b0 lib dbg li res member_die var_addr =
    (case die_attr lib member_die DW_AT_data_member_location of (attr_res, data_member_location) \<Rightarrow>
       if res = DW_DLV_ERROR then Value (Inl res)
       else if res = DW_DLV_NO_ENTRY then Value (Inr var_addr)
       else if attr_res \<noteq> DW_DLV_OK then Crash_run
       else (case whatform lib data_member_location of (res, form) \<Rightarrow>
         if res \<noteq> 0 then Value (Inl res)
         else if const_form form then
           (case formsdata lib data_member_location of (res, member_addr) \<Rightarrow>
              if res \<noteq> 0 then Value (Inl res) else Value (Inr (member_addr + var_addr)))
         else if expr_form form then
           run_bind (get_var_location fuel tr b0 lib dbg li member_die DW_AT_data_location (junk lib))
             (\<lambda>(_, member_addr). Value (Inr member_addr))
         else Value (Inl res)))"

text \<open>
  The chain of types, and the two printing functions that call each other: \<open>sprint_members\<close> is the
  loop over the members of a structure, after which the last handle is given back, a double free when
  the last call has done that. They return the code and the text printed so far.
\<close>

fun sprint_variable_die_val :: "nat \<Rightarrow> 'k tracer \<Rightarrow> ('k, 'u) unwinder \<Rightarrow> (nat \<Rightarrow> UWORD) \<Rightarrow> (UWORD \<Rightarrow> string)
      \<Rightarrow> ('h, 'd, 'c, 'l, 'a, 'e, 'y) dwarf_vars_scheme \<Rightarrow> ('k, 'm, 'h, 'z) Debugger_scheme \<Rightarrow> 'd option \<Rightarrow> UWORD
      \<Rightarrow> (C_int \<times> string) run"
  and sprint_members :: "nat \<Rightarrow> 'k tracer \<Rightarrow> ('k, 'u) unwinder \<Rightarrow> (nat \<Rightarrow> UWORD) \<Rightarrow> (UWORD \<Rightarrow> string)
      \<Rightarrow> ('h, 'd, 'c, 'l, 'a, 'e, 'y) dwarf_vars_scheme \<Rightarrow> ('k, 'm, 'h, 'z) Debugger_scheme \<Rightarrow> Loc_Info \<Rightarrow> 'd option
      \<Rightarrow> 'd option \<Rightarrow> nat \<Rightarrow> UWORD \<Rightarrow> string \<Rightarrow> (C_int \<times> string) run" where
  "sprint_variable_die_val 0 tr uw b0 show_float lib dbg prev_die var_addr = NoFuel"
| "sprint_variable_die_val (Suc fuel) tr uw b0 show_float lib dbg prev_die var_addr =
    (case dietype_offset lib prev_die of (res, type_offset, is_info) \<Rightarrow>
       if res \<noteq> DW_DLV_OK then Value (res, [])
       else (case offdie lib (dwarf_dbg dbg) type_offset is_info of (res, type_die) \<Rightarrow>
         if res \<noteq> DW_DLV_OK then Value (res, [])
         else (case die_tag lib type_die of (res, type_tag) \<Rightarrow>
           if res \<noteq> DW_DLV_OK then Value (res, [])
           else if type_tag = DW_TAG_base_type then
             Value (sprint_var_die_given_base tr show_float lib dbg var_addr type_die)
           else if type_tag = DW_TAG_structure_type then
             (case init_loc_info tr uw dbg (new_loc_info dbg 1 var_addr) of (res, li) \<Rightarrow>
                if res \<noteq> 0 then Value (res, [])
                else sprint_members fuel tr uw b0 show_float lib dbg li type_die None 0 var_addr ''{'')
           else if transparent_tag type_tag then
             sprint_variable_die_val fuel tr uw b0 show_float lib dbg type_die var_addr
           else Value (1, []))))"
| "sprint_members 0 tr uw b0 show_float lib dbg li struct_type_die member_die i var_addr txt = NoFuel"
| "sprint_members (Suc fuel) tr uw b0 show_float lib dbg li struct_type_die member_die i var_addr txt =
    run_bind (get_data_members fuel lib struct_type_die member_die) (\<lambda>(res, member_die, freed).
      if res \<noteq> DW_DLV_OK then
        (if member_die \<noteq> None \<and> member_die \<in> set freed then Crash_run else Value (0, txt @ ''}''))
      else let txt = (if i > 0 then txt @ '', '' else txt) in
        (case die_name lib member_die of (res, member_name) \<Rightarrow>
           if res = DW_DLV_ERROR then Value (1, txt)
           else let txt = txt @ ''['' @ nat_text 8 i @ '']'' @
                  (if res = DW_DLV_NO_ENTRY then ''--'' else member_name) @ '': '' in
             run_bind (member_address fuel tr b0 lib dbg li res member_die var_addr) (\<lambda>r.
               case r of
                 Inl res \<Rightarrow> Value (res, txt)
               | Inr member_addr \<Rightarrow>
                   run_bind (sprint_variable_die_val fuel tr uw b0 show_float lib dbg member_die member_addr)
                     (\<lambda>(res, val). if res \<noteq> 0 then Value (res, txt @ val)
                       else sprint_members fuel tr uw b0 show_float lib dbg li struct_type_die member_die (i + 1)
                         var_addr (txt @ val)))))"

subsection \<open>The var command\<close>

text \<open>
  The text of a value is written into an array of 256 characters without a bound: a longer text
  leaves it.
\<close>

definition var_val_text :: "nat \<Rightarrow> 'k tracer \<Rightarrow> ('k, 'u) unwinder \<Rightarrow> (nat \<Rightarrow> UWORD) \<Rightarrow> (UWORD \<Rightarrow> string)
    \<Rightarrow> ('h, 'd, 'c, 'l, 'a, 'e, 'y) dwarf_vars_scheme \<Rightarrow> ('k, 'm, 'h, 'z) Debugger_scheme \<Rightarrow> 'd option \<Rightarrow> UWORD
    \<Rightarrow> (C_int \<times> string) run" where
  "var_val_text fuel tr uw b0 show_float lib dbg var_die var_addr =
    run_bind (sprint_variable_die_val fuel tr uw b0 show_float lib dbg var_die var_addr) (\<lambda>(res, txt).
      if length txt \<ge> 256 then Crash_run else Value (res, txt))"

text \<open>One parameter of the loop; \<open>Inl\<close> is a return from the command.\<close>

definition print_param :: "nat \<Rightarrow> 'k tracer \<Rightarrow> ('k, 'u) unwinder \<Rightarrow> (nat \<Rightarrow> UWORD) \<Rightarrow> (UWORD \<Rightarrow> string)
    \<Rightarrow> ('h, 'd, 'c, 'l, 'a, 'e, 'y) dwarf_vars_scheme \<Rightarrow> VAR_OPTIONS \<Rightarrow> Loc_Info \<Rightarrow> 'd option \<Rightarrow> nat
    \<Rightarrow> ('k, 'm, 'h, 'z) Debugger_scheme \<Rightarrow> ((C_int + unit) \<times> ('k, 'm, 'h, 'z) Debugger_scheme) run" where
  "print_param fuel tr uw b0 show_float lib var_option li fparam i dbg =
    (case die_name lib fparam of (res, fparam_name) \<Rightarrow>
       if res = DW_DLV_ERROR then Value (Inl 1, dbg)
       else let dbg = (if res = DW_DLV_NO_ENTRY
                then fprintf ''Could not fetch a name for  parameter %i'' [OInt (int i)] dbg
                else fprintf ''Formal parameter %i: %s'' [OInt (int i), OStr fparam_name] dbg) in
         run_bind (get_var_location fuel tr b0 lib dbg li fparam DW_AT_location (junk lib)) (\<lambda>(res, var_addr).
           if res \<noteq> 0 then Value (Inr (), fprintf ''Could not fetch the location of parameter %i'' [OInt (int i)] dbg)
           else if var_option = GET_VAR_ADDR_OPTION then
             Value (Inr (), fprintf ''Evaluated address: %llx'' [OHex var_addr] dbg)
           else if var_option = GET_VAR_VALUE_OPTION then
             run_bind (var_val_text fuel tr uw b0 show_float lib dbg fparam var_addr) (\<lambda>(res, txt).
               if res \<noteq> 0 then Value (Inr (), fprintf ''Could not fetch the value of parameter %i'' [OInt (int i)] dbg)
               else Value (Inr (), fprintf ''Evaluated value: %s'' [OStr txt] dbg))
           else Value (Inl 1, dbg)))"

text \<open>
  After the loop the last handle is given back to libdwarf; doing this with a handle that the last
  call has given back already is a double free.
\<close>

fun param_loop :: "nat \<Rightarrow> 'k tracer \<Rightarrow> ('k, 'u) unwinder \<Rightarrow> (nat \<Rightarrow> UWORD) \<Rightarrow> (UWORD \<Rightarrow> string)
    \<Rightarrow> ('h, 'd, 'c, 'l, 'a, 'e, 'y) dwarf_vars_scheme \<Rightarrow> VAR_OPTIONS \<Rightarrow> Loc_Info \<Rightarrow> 'd option \<Rightarrow> 'd option \<Rightarrow> nat
    \<Rightarrow> ('k, 'm, 'h, 'z) Debugger_scheme \<Rightarrow> (C_int \<times> ('k, 'm, 'h, 'z) Debugger_scheme) run" where
  "param_loop 0 tr uw b0 show_float lib var_option li sub_prog_die fparam i dbg = NoFuel"
| "param_loop (Suc fuel) tr uw b0 show_float lib var_option li sub_prog_die fparam i dbg =
    run_bind (get_formal_params fuel lib sub_prog_die fparam) (\<lambda>(res, fparam, freed).
      if res \<noteq> DW_DLV_OK then
        (if fparam \<noteq> None \<and> fparam \<in> set freed then Crash_run
         else Value (if res = DW_DLV_ERROR then 1 else 0, dbg))
      else run_bind (print_param fuel tr uw b0 show_float lib var_option li fparam i dbg) (\<lambda>(r, dbg).
        case r of Inl res \<Rightarrow> Value (res, dbg)
        | Inr _ \<Rightarrow> param_loop fuel tr uw b0 show_float lib var_option li sub_prog_die fparam (i + 1) dbg))"

text \<open>
  The start that both forms of the command share: the registers, the subprogram of the program
  counter and its frame base. \<open>Inl\<close> is a return from the command.
\<close>

definition var_context :: "nat \<Rightarrow> 'k tracer \<Rightarrow> ('k, 'u) unwinder \<Rightarrow> (nat \<Rightarrow> UWORD)
    \<Rightarrow> ('h, 'd, 'c, 'l, 'a, 'e, 'y) dwarf_vars_scheme \<Rightarrow> ('k, 'm, 'h, 'z) Debugger_scheme
    \<Rightarrow> ((C_int + (Loc_Info \<times> UWORD \<times> 'd option)) \<times> ('k, 'm, 'h, 'z) Debugger_scheme) run" where
  "var_context fuel tr uw b0 lib dbg =
    (case init_loc_info tr uw dbg (new_loc_info dbg 0 0) of (res, li) \<Rightarrow>
       if res \<noteq> 0 then Value (Inl res, dbg)
       else (case get_reg_value tr dbg REG_rip of
           (res, None) \<Rightarrow> Value (Inl res, dbg)
         | (_, Some pc) \<Rightarrow>
           run_bind (get_sub_prog_die_from_addr fuel lib (pc - load_address dbg) (dwarf_dbg dbg))
             (\<lambda>(res, sub_prog_die, h).
               let dbg = dbg\<lparr>dwarf_dbg := h\<rparr> in
               if res = DW_DLV_ERROR then Value (Inl 1, dbg)
               else run_bind (get_var_location fuel tr b0 lib dbg li sub_prog_die DW_AT_frame_base (frame_base li))
                 (\<lambda>(res, fb). if res \<noteq> 0 then Value (Inl res, dbg)
                   else Value (Inr (li\<lparr>frame_base := fb\<rparr>, pc, sub_prog_die), dbg)))))"

definition handle_param_var :: "nat \<Rightarrow> 'k tracer \<Rightarrow> ('k, 'u) unwinder \<Rightarrow> (nat \<Rightarrow> UWORD) \<Rightarrow> (UWORD \<Rightarrow> string)
    \<Rightarrow> ('h, 'd, 'c, 'l, 'a, 'e, 'y) dwarf_vars_scheme \<Rightarrow> ('k, 'm, 'h, 'z) Debugger_scheme \<Rightarrow> VAR_OPTIONS
    \<Rightarrow> (C_int \<times> ('k, 'm, 'h, 'z) Debugger_scheme) run" where
  "handle_param_var fuel tr uw b0 show_float lib dbg var_option =
    run_bind (var_context fuel tr uw b0 lib dbg) (\<lambda>(r, dbg).
      case r of Inl res \<Rightarrow> Value (res, dbg)
      | Inr (li, pc, sub_prog_die) \<Rightarrow>
        (case die_name lib sub_prog_die of (res, func_name) \<Rightarrow>
           if res \<noteq> 0 then Value (1, dbg)
           else param_loop fuel tr uw b0 show_float lib var_option li sub_prog_die None 0
             (fprintf ''Printing formal parameter addresses of func: %s'' [OStr func_name] dbg)))"

text \<open>The mode is not looked at. Using a variable's handle after it was given back is a crash.\<close>

definition handle_get_local_var :: "nat \<Rightarrow> 'k tracer \<Rightarrow> ('k, 'u) unwinder \<Rightarrow> (nat \<Rightarrow> UWORD) \<Rightarrow> (UWORD \<Rightarrow> string)
    \<Rightarrow> ('h, 'd, 'c, 'l, 'a, 'e, 'y) dwarf_vars_scheme \<Rightarrow> ('k, 'm, 'h, 'z) Debugger_scheme \<Rightarrow> string option
    \<Rightarrow> (C_int \<times> ('k, 'm, 'h, 'z) Debugger_scheme) run" where
  "handle_get_local_var fuel tr uw b0 show_float lib dbg var_name =
    run_bind (var_context fuel tr uw b0 lib dbg) (\<lambda>(r, dbg).
      case r of Inl res \<Rightarrow> Value (res, dbg)
      | Inr (li, pc, sub_prog_die) \<Rightarrow>
        run_bind (get_local_var_from_name fuel lib var_name (pc - load_address dbg) sub_prog_die)
          (\<lambda>(res, var_die, freed).
            if res \<noteq> DW_DLV_OK then Value (res, dbg)
            else if var_die \<noteq> None \<and> var_die \<in> set freed then Crash_run
            else (case die_attr lib var_die DW_AT_decl_line of (res, at_decl_line) \<Rightarrow>
              if res = DW_DLV_ERROR then Value (res, dbg)
              else (case (if res = DW_DLV_NO_ENTRY then (0, 0) else formsdata lib at_decl_line) of (res, decl_line) \<Rightarrow>
                if res \<noteq> 0 then Value (res, dbg)
                else run_bind (get_var_location fuel tr b0 lib dbg li var_die DW_AT_location (junk lib))
                  (\<lambda>(res, var_addr).
                    if res \<noteq> 0 then Value (res, dbg)
                    else run_bind (var_val_text fuel tr uw b0 show_float lib dbg var_die var_addr) (\<lambda>(res, txt).
                      if res \<noteq> 0 then Value (res, dbg)
                      else Value (0, fprintf ''%s (declared at line %lli): %s''
                        [OStr (case var_name of None \<Rightarrow> ''(null)'' | Some s \<Rightarrow> s), OInt (sint decl_line), OStr txt] dbg)))))))"

definition handle_var :: "nat \<Rightarrow> 'k tracer \<Rightarrow> ('k, 'u) unwinder \<Rightarrow> (nat \<Rightarrow> UWORD) \<Rightarrow> (UWORD \<Rightarrow> string)
    \<Rightarrow> ('h, 'd, 'c, 'l, 'a, 'e, 'y) dwarf_vars_scheme \<Rightarrow> ('k, 'm, 'h, 'z) Debugger_scheme \<Rightarrow> Buffer
    \<Rightarrow> (C_int \<times> ('k, 'm, 'h, 'z) Debugger_scheme) run" where
  "handle_var fuel tr uw b0 show_float lib dbg buffer =
    run_bind (take_token buffer) (\<lambda>(_, s, buffer).
      case s of None \<Rightarrow> Value (1, dbg)
      | Some arg \<Rightarrow> run_bind (run_of (match_var_option (Some arg))) (\<lambda>mode.
        if mode \<noteq> GET_VAR_ADDR_OPTION \<and> mode \<noteq> GET_VAR_VALUE_OPTION then Value (1, dbg)
        else run_bind (take_token buffer) (\<lambda>(_, s, buffer).
          case s of None \<Rightarrow> Value (1, dbg)
          | Some arg \<Rightarrow> run_bind (run_of (match_var_option (Some arg))) (\<lambda>op.
            if op = PARAM_VAR_OPTION then handle_param_var fuel tr uw b0 show_float lib dbg mode
            else if op = LOCAL_VAR_OPTION then
              run_bind (take_token buffer) (\<lambda>(_, s, _). handle_get_local_var fuel tr uw b0 show_float lib dbg s)
            else Value (1, dbg)))))"

end

