(* ===== verification/Var_Values.thy ===== *)
theory Var_Values
  imports Variables
begin

section \<open>Values and locations of variables: what is printed\<close>

text \<open>
  A reference for the text of a value: C types as a datatype, and a function that renders a type at
  an address from the bytes of the process. The printing functions implement it, given enough fuel.
  Then the locations of variables, and where values and locations come out wrong.
\<close>

subsection \<open>Values of base types\<close>

text \<open>The first \<open>n\<close> bytes at an address, little-endian.\<close>

fun le_word :: "(addr \<Rightarrow> byte) \<Rightarrow> addr \<Rightarrow> nat \<Rightarrow> UWORD" where
  "le_word M a 0 = 0"
| "le_word M a (Suc n) = le_word M a n OR push_bit (8 * n) (ucast (M (a + of_nat n)))"

lemma byte_of_le_word: "byte_of (le_word M a n) j = (if j < n \<and> j < 8 then M (a + of_nat j) else 0)"
proof (induction n)
  case (Suc n)
  have "bit (byte_of (le_word M a (Suc n)) j) m = bit (if j < Suc n \<and> j < 8 then M (a + of_nat j) else 0) m"
    if "m < 8" for m
  proof -
    have "bit (byte_of (le_word M a n) j) m = bit (if j < n \<and> j < 8 then M (a + of_nat j) else 0) m"
      by (simp add: Suc.IH)
    with that show ?thesis
      by (cases "j = n") (auto simp: bit_simps dest: bit_imp_le_length)
  qed
  then show ?case by (intro bit_word_eqI) simp
qed (simp add: byte_of_def)

lemma byte_of_low_mask:
  "n < 8 \<Longrightarrow> byte_of (w AND (2 ^ (8 * n) - 1)) j = (if j < n then byte_of w j else 0)"
proof -
  assume "n < 8"
  then show ?thesis unfolding mask_eq_exp_minus_1 [symmetric]
    by (intro bit_word_eqI) (auto simp: bit_simps dest: bit_imp_le_length)
qed

text \<open>Reading a word and cutting it to \<open>sz\<close> bytes gives these bytes.\<close>

lemma peek_le_word:
  fixes sz :: UWORD
  assumes P: "process_ok tr mem regs" and "sz \<le> 8"
  shows "\<exists>d. ptrace_peek_data tr dbg a = (0, d) \<and>
    (if sz < 8 then d AND (push_bit (unat (8 * sz)) 1 - 1) else d) = le_word (mem (tracee dbg)) a (unat sz)"
proof -
  define d where "d = fst (tr_peek tr (tracee dbg) a)"
  have p: "ptrace_peek_data tr dbg a = (0, d)"
    using process_okD(1) [OF P, of "tracee dbg" a] by (simp add: ptrace_peek_data_def case_prod_beta d_def)
  have s: "unat sz \<le> 8" "sz < 8 \<longleftrightarrow> unat sz < 8" using assms(2) by (simp_all add: word_le_nat_alt word_less_nat_alt)
  have m: "unat (8 * sz) = 8 * unat sz" using s(1) by (simp add: unat_mult_lem [THEN iffD1])
  have b: "byte_of d j = mem (tracee dbg) (a + of_nat j)" if "j < 8" for j
    using process_okD(2) [OF P that] by (simp add: d_def)
  have "(if sz < 8 then d AND (push_bit (unat (8 * sz)) 1 - 1) else d) = le_word (mem (tracee dbg)) a (unat sz)"
  proof (rule word_eq_byteI)
    fix j :: nat assume j: "j < 8"
    show "byte_of (if sz < 8 then d AND (push_bit (unat (8 * sz)) 1 - 1) else d) j =
        byte_of (le_word (mem (tracee dbg)) a (unat sz)) j"
      using j s b [OF j] by (auto simp: byte_of_le_word m byte_of_low_mask)
  qed
  with p show ?thesis by blast
qed

definition base_attrs :: "('h, 'd, 'c, 'l, 'a, 'e, 'y) dwarf_vars_scheme \<Rightarrow> 'd \<Rightarrow> UWORD \<Rightarrow> UWORD \<Rightarrow> bool" where
  "base_attrs lib td ate sz \<longleftrightarrow> (\<exists>a. die_attr lib (Some td) DW_AT_encoding = (DW_DLV_OK, a)
     \<and> formsdata lib a = (DW_DLV_OK, ate)) \<and> bytesize lib (Some td) = (DW_DLV_OK, sz)"

lemma given_base_run:
  assumes "process_ok tr mem regs" "base_attrs lib td ate sz" "sz \<le> 8"
  shows "sprint_var_die_given_base tr show_float lib dbg a (Some td) =
    (case base_text show_float (sint ate) (le_word (mem (tracee dbg)) a (unat sz)) of
       None \<Rightarrow> (1, []) | Some tx \<Rightarrow> (0, tx))"
proof -
  from peek_le_word [OF assms(1,3), of dbg a] obtain d where
    "ptrace_peek_data tr dbg a = (0, d)"
    "(if sz < 8 then d AND (push_bit (unat (8 * sz)) 1 - 1) else d) = le_word (mem (tracee dbg)) a (unat sz)" by blast
  moreover from assms(2) obtain at where
    "die_attr lib (Some td) DW_AT_encoding = (DW_DLV_OK, at)" "formsdata lib at = (DW_DLV_OK, ate)"
    "bytesize lib (Some td) = (DW_DLV_OK, sz)" by (auto simp: base_attrs_def)
  ultimately show ?thesis using assms(3)
    by (simp add: sprint_var_die_given_base_def Let_def not_less [symmetric] cong: if_cong split: option.split)
qed

subsection \<open>Types and the text of their values\<close>

datatype ctype = Base UWORD UWORD | Alias ctype | Struct "(string \<times> UWORD \<times> ctype) list"

text \<open>
  The reference: an alias (a typedef, a qualifier, but also a pointer) is its target, a structure is
  the list of its members, numbered and named.
\<close>

fun render :: "(UWORD \<Rightarrow> string) \<Rightarrow> (addr \<Rightarrow> byte) \<Rightarrow> ctype \<Rightarrow> addr \<Rightarrow> string"
  and render_members :: "(UWORD \<Rightarrow> string) \<Rightarrow> (addr \<Rightarrow> byte) \<Rightarrow> nat \<Rightarrow> (string \<times> UWORD \<times> ctype) list \<Rightarrow> addr \<Rightarrow> string" where
  "render show_float M (Base ate sz) a =
    (case base_text show_float (sint ate) (le_word M a (unat sz)) of None \<Rightarrow> [] | Some tx \<Rightarrow> tx)"
| "render show_float M (Alias ty) a = render show_float M ty a"
| "render show_float M (Struct ms) a = ''{'' @ render_members show_float M 0 ms a @ ''}''"
| "render_members show_float M i [] a = []"
| "render_members show_float M i ((nm, off, ty) # ms) a =
    (if i > 0 then '', '' else []) @ ''['' @ nat_text 8 i @ '']'' @ nm @ '': '' @ render show_float M ty (off + a)
    @ render_members show_float M (i + 1) ms a"

text \<open>
  What libdwarf says about a handle: its type, through the offset of the type; the offset of a
  member as a constant; and, recursively, that a handle has a given C type.
\<close>

definition type_ref :: "('h, 'd, 'c, 'l, 'a, 'e, 'y) dwarf_vars_scheme \<Rightarrow> 'h \<Rightarrow> 'd \<Rightarrow> 'd \<Rightarrow> int \<Rightarrow> bool" where
  "type_ref lib h d td tg \<longleftrightarrow> (\<exists>off is_info. dietype_offset lib (Some d) = (DW_DLV_OK, off, is_info)
     \<and> offdie lib h off is_info = (DW_DLV_OK, Some td)) \<and> die_tag lib (Some td) = (DW_DLV_OK, tg)"

definition member_offset :: "('h, 'd, 'c, 'l, 'a, 'e, 'y) dwarf_vars_scheme \<Rightarrow> 'd \<Rightarrow> UWORD \<Rightarrow> bool" where
  "member_offset lib d off \<longleftrightarrow> (\<exists>a f. die_attr lib (Some d) DW_AT_data_member_location = (DW_DLV_OK, a)
     \<and> whatform lib a = (DW_DLV_OK, f) \<and> const_form f \<and> formsdata lib a = (DW_DLV_OK, off))"

abbreviation "members_of t \<equiv> filter (\<lambda>t. i_tag (d_info t) = DW_TAG_member) (d_children t)"

inductive has_type :: "('h, 'd, 'c, 'l, 'a, 'e, 'y) dwarf_vars_scheme \<Rightarrow> ('d \<Rightarrow> die_tree list) \<Rightarrow> 'h \<Rightarrow> 'd \<Rightarrow> ctype \<Rightarrow> bool"
  for lib repr h where
  base_ty: "type_ref lib h d td DW_TAG_base_type \<Longrightarrow> base_attrs lib td ate sz \<Longrightarrow> sz \<le> 8 \<Longrightarrow>
    sint ate \<in> {1, 2, 4, 5, 6, 7, 8} \<Longrightarrow> has_type lib repr h d (Base ate sz)"
| alias_ty: "type_ref lib h d td tg \<Longrightarrow> transparent_tag tg \<Longrightarrow> has_type lib repr h td ty \<Longrightarrow> has_type lib repr h d (Alias ty)"
| struct_ty: "type_ref lib h d td DW_TAG_structure_type \<Longrightarrow> \<not> ends_dangling DW_TAG_member (d_children (hd (repr td))) \<Longrightarrow>
    list_all2 (\<lambda>t (nm, off, ty). i_name (d_info t) = Some nm \<and>
       (\<forall>d'. hd (repr d') = t \<longrightarrow> member_offset lib d' off \<and> has_type lib repr h d' ty))
      (members_of (hd (repr td))) ms \<Longrightarrow> has_type lib repr h d (Struct ms)"

text \<open>A handle prints as a text at every address: with enough fuel, the text is the result.\<close>

definition prints :: "'k tracer \<Rightarrow> ('k, 'u) unwinder \<Rightarrow> (nat \<Rightarrow> UWORD) \<Rightarrow> (UWORD \<Rightarrow> string)
    \<Rightarrow> ('h, 'd, 'c, 'l, 'a, 'e, 'y) dwarf_vars_scheme \<Rightarrow> ('k, 'm, 'h, 'z) Debugger_scheme \<Rightarrow> 'd \<Rightarrow> addr \<Rightarrow> string \<Rightarrow> bool" where
  "prints tr uw b0 show_float lib dbg d a tx \<longleftrightarrow>
    (\<exists>n. \<forall>fuel\<ge>n. sprint_variable_die_val fuel tr uw b0 show_float lib dbg (Some d) a = Value (0, tx))"

lemma filter_suffix:
  assumes "repr d = dropWhile (\<lambda>t. \<not> P t) us" "filter P us = t # ts"
  shows "hd (repr d) = t \<and> filter P (tl (repr d)) = ts"
proof -
  have "t \<in> set (filter P us)" unfolding assms(2) by simp
  then have "\<exists>x\<in>set us. P x" by auto
  then have "dropWhile (\<lambda>t. \<not> P t) us \<noteq> []" by (simp add: dropWhile_eq_Nil_conv)
  then obtain y ys where y: "dropWhile (\<lambda>t. \<not> P t) us = y # ys" by (cases "dropWhile (\<lambda>t. \<not> P t) us") auto
  from members.filter_tl_dropWhile [OF y] assms show ?thesis using y by simp
qed

lemma data_members_loop_mono:
  "data_members_loop fuel lib fparam nd freed = Value v \<Longrightarrow> fuel \<le> fuel' \<Longrightarrow>
   data_members_loop fuel' lib fparam nd freed = Value v"
proof (induction fuel arbitrary: fuel' fparam nd freed)
  case (Suc fuel)
  then obtain f where f: "fuel' = Suc f" "fuel \<le> f" by (cases fuel') auto
  from Suc.prems(1) Suc.IH [OF _ f(2)] show ?case
    by (simp add: f(1) Let_def case_prod_beta split: if_splits)
qed simp

lemma get_data_members_mono:
  "get_data_members fuel lib die prev = Value v \<Longrightarrow> fuel \<le> fuel' \<Longrightarrow> get_data_members fuel' lib die prev = Value v"
  by (cases prev) (auto simp: get_data_members_def Let_def case_prod_beta split: if_splits intro: data_members_loop_mono)

fun member_texts :: "nat \<Rightarrow> (string \<times> UWORD \<times> string) list \<Rightarrow> string" where
  "member_texts i [] = []"
| "member_texts i ((nm, off, t) # ms) =
    (if i > 0 then '', '' else []) @ ''['' @ nat_text 8 i @ '']'' @ nm @ '': '' @ t @ member_texts (i + 1) ms"

lemma sprint_members_run:
  assumes F: "die_forest lib repr"
    and M: "list_all2 (\<lambda>t (nm, off, tx). i_name (d_info t) = Some nm \<and>
       (\<forall>d'. hd (repr d') = t \<longrightarrow> member_offset lib d' off \<and> prints tr uw b0 show_float lib dbg d' (off + a) tx))
      (filter (\<lambda>t. i_tag (d_info t) = DW_TAG_member)
         (case prev of None \<Rightarrow> d_children (hd (repr td)) | Some p \<Rightarrow> tl (repr p))) ms"
    and C: "case prev of None \<Rightarrow> \<not> ends_dangling DW_TAG_member (d_children (hd (repr td)))
      | Some p \<Rightarrow> tl (repr p) = [] \<or> i_tag (d_info (last (tl (repr p)))) = DW_TAG_member"
  shows "\<exists>n. \<forall>fuel\<ge>n. sprint_members fuel tr uw b0 show_float lib dbg li (Some td) prev i a tx =
    Value (0, tx @ member_texts i ms @ ''}'')"
  using M C
proof (induction ms arbitrary: prev i tx rule: list.induct)
  case Nil
  let ?ss = "case prev of None \<Rightarrow> d_children (hd (repr td)) | Some p \<Rightarrow> tl (repr p)"
  have "filter (\<lambda>t. i_tag (d_info t) = DW_TAG_member) ?ss = []"
    using Nil.prems(1) unfolding list_all2_Nil2 .
  then have no: "\<not> (\<exists>t\<in>set ?ss. i_tag (d_info t) = DW_TAG_member)" by (simp add: filter_empty_conv)
  have "sprint_members fuel tr uw b0 show_float lib dbg li (Some td) prev i a tx = Value (0, tx @ ''}'')"
    if "fuel \<ge> Suc (Suc (length ?ss))" for fuel
  proof -
    from that obtain f where f: "fuel = Suc f" "length ?ss < f" by (cases fuel) auto
    from members.get_end [OF F refl f(2)] no obtain fp fr where
      g: "get_data_members f lib (Some td) prev = Value (DW_DLV_NO_ENTRY, fp, fr)"
        "fp \<noteq> None \<and> fp \<in> set fr \<longleftrightarrow> (if prev = None then 1 < length ?ss else ?ss \<noteq> [])" by auto
    have "?ss = [] \<or> i_tag (d_info (last ?ss)) \<noteq> DW_TAG_member" using no last_in_set [of ?ss] by blast
    then have "\<not> (fp \<noteq> None \<and> fp \<in> set fr)"
      using g(2) Nil.prems(2) by (cases prev) (auto simp: ends_dangling_def)
    with g(1) show ?thesis by (simp add: f(1))
  qed
  then show ?case by (intro exI [of _ "Suc (Suc (length ?ss))"]) simp
next
  case (Cons m ms)
  obtain nm off t where m: "m = (nm, off, t)" by (rule prod_cases3)
  let ?P = "\<lambda>t. i_tag (d_info t) = DW_TAG_member"
  let ?ss = "case prev of None \<Rightarrow> d_children (hd (repr td)) | Some p \<Rightarrow> tl (repr p)"
  let ?R = "\<lambda>t (nm, off, tx). i_name (d_info t) = Some nm \<and>
       (\<forall>d'. hd (repr d') = t \<longrightarrow> member_offset lib d' off \<and> prints tr uw b0 show_float lib dbg d' (off + a) tx)"
  from Cons.prems(1) obtain x xs where x: "filter ?P ?ss = x # xs" and R: "?R x m" and xs: "list_all2 ?R xs ms"
    unfolding list_all2_Cons2 by blast
  have "x \<in> set (filter ?P ?ss)" unfolding x by simp
  then have "\<exists>t\<in>set ?ss. ?P t" by auto
  with members.get_any [OF F refl, where prev = prev and die = td and fuel = "Suc (length ?ss)"] obtain d fr where
    d: "get_data_members (Suc (length ?ss)) lib (Some td) prev = Value (DW_DLV_OK, Some d, fr)"
      "repr d = dropWhile (\<lambda>t. \<not> ?P t) ?ss" by auto
  from filter_suffix [where P = ?P and repr = repr and d = d, OF d(2) x] have hd: "hd (repr d) = x" "filter ?P (tl (repr d)) = xs" by simp_all
  let ?sep = "if i > 0 then '', '' else []"
  let ?tx = "tx @ ?sep @ ''['' @ nat_text 8 i @ '']'' @ nm @ '': '' @ t"
  obtain us where us: "repr d = x # us" using forestD(1) [OF F, of d] hd(1) by (cases "repr d") auto
  obtain pre where pre: "?ss = pre @ x # us" using d(2) us by (metis takeWhile_dropWhile_id)
  have "x \<in> set (filter ?P ?ss)" unfolding x by simp
  then have "us = [] \<or> ?P (last us)" using Cons.prems(2) pre by (cases prev) (auto simp: ends_dangling_def split: if_splits)
  with Cons.IH [of "Some d" "i + 1" ?tx] xs hd(2) us obtain n1 where
    n1: "\<And>fuel. fuel \<ge> n1 \<Longrightarrow> sprint_members fuel tr uw b0 show_float lib dbg li (Some td) (Some d) (i + 1) a ?tx =
      Value (0, ?tx @ member_texts (i + 1) ms @ ''}'')" by auto
  from R hd(1) obtain n2 where
    n2: "\<And>fuel. fuel \<ge> n2 \<Longrightarrow> sprint_variable_die_val fuel tr uw b0 show_float lib dbg (Some d) (off + a) = Value (0, t)"
    and mo: "member_offset lib d off" by (auto simp: m prints_def)
  have nm: "die_name lib (Some d) = (DW_DLV_OK, nm)"
    using forestD(5) [OF F, of d] hd(1) R by (simp add: m name_ok_def)
  have ma: "member_address f tr b0 lib dbg li DW_DLV_OK (Some d) a = Value (Inr (off + a))" for f
    using mo by (auto simp: member_offset_def member_address_def)
  have "sprint_members fuel tr uw b0 show_float lib dbg li (Some td) prev i a tx =
      Value (0, tx @ member_texts i (m # ms) @ ''}'')"
    if "fuel \<ge> Suc (max (Suc (length ?ss)) (max n1 n2))" for fuel
  proof -
    from that obtain f where f: "fuel = Suc f" "Suc (length ?ss) \<le> f" "n1 \<le> f" "n2 \<le> f" by (cases fuel) auto
    show ?thesis
      using n1 [OF f(3)] n2 [OF f(4)] get_data_members_mono [OF d(1) f(2)] nm ma
      by (cases i) (simp_all add: f(1) m Let_def)
  qed
  then show ?case by blast
qed

lemma render_members_texts:
  "render_members show_float M i ms a = member_texts i (map (\<lambda>(nm, off, ty). (nm, off, render show_float M ty (off + a))) ms)"
proof (induction ms arbitrary: i)
  case (Cons m ms)
  obtain nm off ty where "m = (nm, off, ty)" by (rule prod_cases3)
  with Cons [of "Suc i"] show ?case by simp
qed simp

lemma prints_step:
  assumes "\<And>fuel. fuel \<ge> n \<Longrightarrow>
    sprint_variable_die_val (Suc fuel) tr uw b0 show_float lib dbg (Some d) a = Value (0, t)"
  shows "prints tr uw b0 show_float lib dbg d a t"
  unfolding prints_def
proof (intro exI allI impI)
  fix fuel assume "Suc n \<le> fuel"
  then obtain f where "fuel = Suc f" "n \<le> f" by (cases fuel) auto
  with assms show "sprint_variable_die_val fuel tr uw b0 show_float lib dbg (Some d) a = Value (0, t)" by simp
qed

lemma prints_render:
  assumes P: "process_ok tr mem regs" and F: "die_forest lib repr"
    and L: "\<forall>a. fst (init_loc_info tr uw dbg (new_loc_info dbg 1 a)) = 0"
    and ty: "has_type lib repr (dwarf_dbg dbg) d ty"
  shows "prints tr uw b0 show_float lib dbg d a (render show_float (mem (tracee dbg)) ty a)"
  using ty
proof (induction arbitrary: a rule: has_type.induct)
  case (base_ty d td ate sz)
  have "base_text show_float (sint ate) w \<noteq> None" for w
    using base_ty(4) by (auto simp: base_text_def)
  then obtain t where t: "base_text show_float (sint ate) (le_word (mem (tracee dbg)) a (unat sz)) = Some t" by blast
  note run = given_base_run [OF P base_ty(2,3), of show_float dbg a]
  show ?case
    by (rule prints_step [where n = 0]) (use base_ty(1) run t in \<open>auto simp: type_ref_def\<close>)
next
  case (alias_ty d td tg ty)
  from alias_ty.IH [of a] obtain n where
    n: "\<And>fuel. fuel \<ge> n \<Longrightarrow> sprint_variable_die_val fuel tr uw b0 show_float lib dbg (Some td) a =
      Value (0, render show_float (mem (tracee dbg)) ty a)" by (auto simp: prints_def)
  have tg: "tg \<noteq> DW_TAG_base_type" "tg \<noteq> DW_TAG_structure_type"
    using alias_ty(2) by (auto simp: transparent_tag_def)
  show ?case
    by (rule prints_step [where n = n]) (use alias_ty(1,2) n tg in \<open>auto simp: type_ref_def\<close>)
next
  case (struct_ty d td ms)
  let ?ms = "map (\<lambda>(nm, off, ty). (nm, off, render show_float (mem (tracee dbg)) ty (off + a))) ms"
  have M: "list_all2 (\<lambda>t (nm, off, tx). i_name (d_info t) = Some nm \<and>
       (\<forall>d'. hd (repr d') = t \<longrightarrow> member_offset lib d' off \<and> prints tr uw b0 show_float lib dbg d' (off + a) tx))
      (members_of (hd (repr td))) ?ms"
    unfolding list_all2_map2 using struct_ty(3) by (rule list_all2_mono) auto
  obtain li where li: "init_loc_info tr uw dbg (new_loc_info dbg 1 a) = (0, li)"
    using L by (metis prod.collapse)
  have "\<exists>n. \<forall>fuel\<ge>n. sprint_members fuel tr uw b0 show_float lib dbg li (Some td) None 0 a ''{'' =
      Value (0, ''{'' @ member_texts 0 ?ms @ ''}'')"
    by (rule sprint_members_run [OF F]) (simp_all only: option.case M struct_ty(2) not_False_eq_True)
  then obtain n where
    n: "\<And>fuel. fuel \<ge> n \<Longrightarrow> sprint_members fuel tr uw b0 show_float lib dbg li (Some td) None 0 a ''{'' =
      Value (0, ''{'' @ member_texts 0 ?ms @ ''}'')" by blast
  show ?case
    by (rule prints_step [where n = n])
       (use struct_ty(1) n li in \<open>auto simp: type_ref_def render_members_texts\<close>)
qed

text \<open>
  Claim C6. The printing of a value implements its reference: for a handle whose C type is built from base
  types of at most eight bytes, aliases and structures with constant member offsets whose entries end with a member, the text that
  is printed, given enough fuel, is the rendering of the bytes of the process, member by member.
\<close>

theorem sprint_value_renders:
  assumes "process_ok tr mem regs" "die_forest lib repr" "has_type lib repr (dwarf_dbg dbg) d ty"
    and "\<forall>a. fst (init_loc_info tr uw dbg (new_loc_info dbg 1 a)) = 0"
  shows "\<exists>n. \<forall>fuel\<ge>n. sprint_variable_die_val fuel tr uw b0 show_float lib dbg (Some d) a =
    Value (0, render show_float (mem (tracee dbg)) ty a)"
  using prints_render [OF assms(1,2,4,3)] by (simp add: prints_def)

subsection \<open>A concrete library\<close>

text \<open>
  For the witnesses: attributes by the name of the entry, each with a number, a form and a location
  list; types at two offsets, a structure of two integers and the integer type.
\<close>

type_synonym sample_attr = "UWORD \<times> int \<times> (UWORD \<times> UWORD \<times> loc_op list) list"

definition int_die :: die_tree where "int_die = mk_die DW_TAG_base_type ''int'' 0 0 []"

definition point_die :: die_tree where
  "point_die = mk_die DW_TAG_structure_type ''pt'' 0 0 [mk_die DW_TAG_member ''x'' 0 0 [], mk_die DW_TAG_member ''y'' 0 0 []]"

definition sample_attrs :: "string \<Rightarrow> int \<Rightarrow> C_int \<times> sample_attr" where
  "sample_attrs nm at =
    (if nm = ''int'' \<and> at = DW_AT_encoding then (DW_DLV_OK, 5, 0, [])
     else if nm = ''x'' \<and> at = DW_AT_data_member_location then (DW_DLV_OK, 0, 0x0b, [])
     else if nm = ''y'' \<and> at = DW_AT_data_member_location then (DW_DLV_OK, 4, 0x0b, [])
     else if nm = ''v'' \<and> at = DW_AT_location then (DW_DLV_OK, 0, 0x18, [(0, 0x2000, [mk_op DW_OP_fbreg 0 16])])
     else if nm = ''f'' \<and> at = DW_AT_frame_base then (DW_DLV_OK, 0, 0x18, [(0, 0x2000, [mk_op DW_OP_call_frame_cfa 0 0])])
     else (DW_DLV_NO_ENTRY, 0, 0, []))"

definition sample_lib ::
  "(die_tree list \<times> die_tree list, die_tree \<times> die_tree list, line_row list, line_row, sample_attr,
    (UWORD \<times> UWORD \<times> loc_op list) list) dwarf_vars" where
  "sample_lib = dwarf_lib.extend forest_lib (dwarf_vars.fields
     (\<lambda>d at. case d of None \<Rightarrow> (DW_DLV_ERROR, 0, 0, []) | Some (t, _) \<Rightarrow>
        (case i_name (d_info t) of None \<Rightarrow> (DW_DLV_NO_ENTRY, 0, 0, []) | Some nm \<Rightarrow> sample_attrs nm at))
     (\<lambda>(_, _, ls). (DW_DLV_OK, ls, length ls))
     (\<lambda>ls i. case ls ! i of (lo, hi, ops) \<Rightarrow> (DW_DLV_OK, lo, hi, length ops, fetch_list ops))
     (\<lambda>(v, _, _). (DW_DLV_OK, v))
     (\<lambda>(_, f, _). (DW_DLV_OK, f))
     (\<lambda>d. case d of None \<Rightarrow> (DW_DLV_ERROR, 0, False) | Some (t, _) \<Rightarrow>
        (DW_DLV_OK, if i_name (d_info t) = Some ''p'' then 1 else 2, False))
     (\<lambda>h off _. (DW_DLV_OK, Some (if off = 1 then point_die else int_die, [])))
     (\<lambda>d. (DW_DLV_OK, 4)))"

lemmas sample_defs = sample_lib_def dwarf_lib.extend_def dwarf_vars.fields_def forest_lib_def

lemma sample_lib_forest: "die_forest sample_lib tree_repr"
proof -
  have "next_cu_header sample_lib = next_cu_header forest_lib" "die_lowpc sample_lib = die_lowpc forest_lib"
    "die_highpc sample_lib = die_highpc forest_lib" "addr_form_is_indexed sample_lib = addr_form_is_indexed forest_lib"
    "die_child sample_lib = die_child forest_lib" "die_sibling sample_lib = die_sibling forest_lib"
    "die_tag sample_lib = die_tag forest_lib" "die_name sample_lib = die_name forest_lib"
    by (simp_all add: sample_defs)
  note eqs = this
  have rng: "range_ok sample_lib r d = range_ok forest_lib r d" for r d unfolding range_ok_def eqs by (rule refl)
  show ?thesis unfolding die_forest_def eqs rng by (rule forest_lib_forest [unfolded die_forest_def])
qed

lemma sample_types:
  "has_type sample_lib tree_repr h d' (Base 5 4)" if "i_name (d_info (fst d')) \<noteq> Some ''p''" for d'
proof -
  obtain t r where d: "d' = (t, r)" by (rule prod.exhaust)
  have "type_ref sample_lib h (t, r) (int_die, []) DW_TAG_base_type"
    using that unfolding d type_ref_def
    by (intro conjI exI [of _ 2] exI [of _ False]) (simp_all add: sample_defs int_die_def on_die_def)
  moreover have "base_attrs sample_lib (int_die, []) 5 4"
    by (simp add: base_attrs_def sample_defs int_die_def sample_attrs_def)
  ultimately show ?thesis unfolding d by (rule has_type.base_ty) simp_all
qed

lemma sample_point:
  "has_type sample_lib tree_repr h (mk_die DW_TAG_variable ''p'' 0 0 [], []) (Struct [(''x'', 0, Base 5 4), (''y'', 4, Base 5 4)])"
proof (rule has_type.struct_ty [where td = "(point_die, [])"])
  show "type_ref sample_lib h (mk_die DW_TAG_variable ''p'' 0 0 [], []) (point_die, []) DW_TAG_structure_type"
    unfolding type_ref_def
    by (intro conjI exI [of _ 1] exI [of _ False]) (simp_all add: sample_defs point_die_def on_die_def)
  show "\<not> ends_dangling DW_TAG_member (d_children (hd (tree_repr (point_die, []))))"
    by (simp add: ends_dangling_def tree_repr_def point_die_def mk_die_def)
  have mo: "member_offset sample_lib (t, r) off"
    if "i_name (d_info t) = Some nm" "nm = ''x'' \<and> off = 0 \<or> nm = ''y'' \<and> off = 4" for t r nm off
    using that by (auto simp: member_offset_def sample_defs sample_attrs_def const_form_def)
  show "list_all2 (\<lambda>t (nm, off, ty). i_name (d_info t) = Some nm \<and>
       (\<forall>d'. hd (tree_repr d') = t \<longrightarrow> member_offset sample_lib d' off \<and> has_type sample_lib tree_repr h d' ty))
      (members_of (hd (tree_repr (point_die, [])))) [(''x'', 0, Base 5 4), (''y'', 4, Base 5 4)]"
    by (auto simp: tree_repr_def point_die_def intro!: mo sample_types)
qed

theorem sprint_value_renders_witness:
  "\<exists>n. \<forall>fuel\<ge>n. sprint_variable_die_val fuel sim_tracer sim_unwinder (\<lambda>_. 0) (\<lambda>_. []) sample_lib
      (sim_dbg () ([], [])) (Some (mk_die DW_TAG_variable ''p'' 0 0 [], [])) 0x3000
    = Value (0, ''{[0]x: '' @ nat_text 8 0x90909090 @ '', [1]y: '' @ nat_text 8 0x90909090 @ ''}'')"
proof -
  have L: "\<forall>a. fst (init_loc_info sim_tracer sim_unwinder (sim_dbg () ([], [])) (new_loc_info (sim_dbg () ([], [])) 1 a)) = 0"
    by (simp add: init_loc_info_def get_regs_struct_def sim_tracer_def sim_unwinder_def get_preserved_registers_def)
  have w: "le_word (\<lambda>_. 0x90) a 4 = 0x90909090" for a
  proof -
    have "(4 :: nat) = Suc (Suc (Suc (Suc 0)))" by simp
    then show ?thesis by (simp only: le_word.simps) simp
  qed
  have z: "nat_text 8 0 = ''0''" "nat_text 8 (Suc 0) = ''1''"
    by (subst nat_text.simps, simp add: digit_char_def)+
  from sprint_value_renders [OF sim_process sample_lib_forest sample_point L, of "\<lambda>_. 0" "\<lambda>_. []" "0x3000"]
  show ?thesis
    by (simp add: sim_dbg_def sim_start_def w base_text_def print_lli_def z)
qed

end
