(* ===== verification/Var_Locations.thy ===== *)
theory Var_Locations
  imports Var_Values
begin

section \<open>Locations of variables and the parameters command\<close>

text \<open>
  The location that is evaluated for a variable, as a function of its location list; signed values;
  the end of the parameters command.
\<close>

subsection \<open>Signed values\<close>

lemma le_word_bound: "bit (le_word M a n) m \<Longrightarrow> m < 8 * n"
  by (induction n) (auto simp: bit_simps dest: bit_imp_le_length)

lemma sint_le_word: "n < 8 \<Longrightarrow> sint (le_word M a n) = uint (le_word M a n)"
proof -
  assume "n < 8"
  then have "\<not> bit (le_word M a n) 63" using le_word_bound [of M a n 63] by auto
  then have b: "\<not> bit (uint (le_word M a n)) 63" by (simp add: bit_uint_iff)
  have "sint (le_word M a n) = signed_take_bit 63 (uint (le_word M a n))"
    by (simp add: sint_uint)
  also have "\<dots> = take_bit 63 (uint (le_word M a n))" using b by (simp add: signed_take_bit_eq_if_positive)
  also have "\<dots> = uint (le_word M a n)"
  proof (rule bit_eqI)
    fix m
    show "bit (take_bit 63 (uint (le_word M a n))) m = bit (uint (le_word M a n)) m"
      using le_word_bound [of M a n m] \<open>n < 8\<close> by (auto simp: bit_take_bit_iff bit_uint_iff)
  qed
  finally show ?thesis .
qed

text \<open>
  Claim C38. A signed variable of fewer than eight bytes is not sign-extended: the text is that of the unsigned
  number with the same bytes, so that an \<open>int\<close> of -1 is shown as 4294967295.
\<close>

theorem signed_value_unextended:
  assumes "process_ok tr mem regs" "base_attrs lib td ate sz" "sz < 8"
    and "sint ate = DW_ATE_signed \<or> sint ate = DW_ATE_signed_char"
  shows "sprint_var_die_given_base tr show_float lib dbg a (Some td) =
    (0, print_llu (le_word (mem (tracee dbg)) a (unat sz)))"
proof -
  have s: "unat sz < 8" using assms(3) by (simp add: word_less_nat_alt)
  have le: "sz \<le> 8" using assms(3) by (rule order.strict_implies_order)
  let ?w = "le_word (mem (tracee dbg)) a (unat sz)"
  have u: "sint ?w = int (unat ?w)" by (simp only: sint_le_word [OF s] uint_nat)
  have "print_lli ?w = print_llu ?w" unfolding print_lli_def print_llu_def u by (simp only: of_nat_less_0_iff if_False nat_int)
  then have "base_text show_float (sint ate) ?w = Some (print_llu ?w)"
    using assms(4) by (elim disjE) (simp_all only: base_text_def, simp_all)
  then show ?thesis
    by (simp only: given_base_run [OF assms(1,2) le] option.case)
qed

theorem signed_value_unextended_witness:
  "sprint_var_die_given_base sim_tracer (\<lambda>_. []) sample_lib ((sim_dbg () ([], []))\<lparr>tracee := sim_start\<lparr>sim_mem := \<lambda>_. 0xff\<rparr>\<rparr>)
     0x3000 (Some (int_die, [])) = (0, print_llu 0xffffffff)"
proof -
  have b: "base_attrs sample_lib (int_die, []) 5 4"
    by (simp add: base_attrs_def sample_defs int_die_def sample_attrs_def)
  have "(4 :: nat) = Suc (Suc (Suc (Suc 0)))" by simp
  then have w: "le_word (\<lambda>_. 0xff) a 4 = 0xffffffff" for a by (simp only: le_word.simps) simp
  from signed_value_unextended [OF sim_process b, of "\<lambda>_. []" "(sim_dbg () ([], []))\<lparr>tracee := sim_start\<lparr>sim_mem := \<lambda>_. 0xff\<rparr>\<rparr>" "0x3000"]
  show ?thesis by (simp add: w)
qed

subsection \<open>A process for the witnesses\<close>

text \<open>A function with a parameter followed by another entry, and the process stopped in it.\<close>

definition trailing_kids :: "die_tree list" where
  "trailing_kids = [mk_die DW_TAG_formal_parameter ''x'' 0 0 [], mk_die DW_TAG_variable ''z'' 0 0 []]"

definition trailing_function :: die_tree where
  "trailing_function = mk_die DW_TAG_subprogram ''f'' 0 0x9000 trailing_kids"

definition trailing_dbg :: "(sim, unit, die_tree list \<times> die_tree list) Debugger" where
  "trailing_dbg = sim_dbg () ([mk_die 0x11 ''a.c'' 0 0x9000 [trailing_function]], [])"

subsection \<open>The location of a variable\<close>

text \<open>
  The entry of the list that is evaluated: the first one whose range holds the program counter, ends
  included, and otherwise the last one.
\<close>

type_synonym loc_entry = "UWORD \<times> UWORD \<times> loc_op list"

definition chosen_entry :: "loc_entry list \<Rightarrow> UWORD \<Rightarrow> loc_entry" where
  "chosen_entry ls pc = (case find (\<lambda>(lo, hi, ops). lo \<le> pc \<and> pc \<le> hi) ls of Some e \<Rightarrow> e | None \<Rightarrow> last ls)"

lemma locdesc_loop_chosen:
  assumes "\<And>i. i < length ls \<Longrightarrow> locdesc_entry lib head i =
    (DW_DLV_OK, fst (ls ! i), fst (snd (ls ! i)), length (snd (snd (ls ! i))), fetch_list (snd (snd (ls ! i))))"
  shows "n \<le> length ls \<Longrightarrow> locdesc_loop lib head pc [n..<length ls] cur =
    (if n = length ls then Inr cur
     else case chosen_entry (drop n ls) pc of (lo, hi, ops) \<Rightarrow> Inr (length ops, fetch_list ops))"
proof (induction "length ls - n" arbitrary: n cur)
  case (Suc k)
  then have n: "n < length ls" "k = length ls - Suc n" by simp_all
  obtain lo hi ops where e: "ls ! n = (lo, hi, ops)" by (rule prod_cases3)
  have d: "drop n ls = (lo, hi, ops) # drop (Suc n) ls" using n(1) e by (simp add: Cons_nth_drop_Suc [symmetric])
  have u: "[n..<length ls] = n # [Suc n..<length ls]" using n(1) by (simp add: upt_conv_Cons)
  note IH = Suc.hyps(1) [OF n(2)]
  show ?case
    unfolding u using assms [OF n(1)] IH [of "(length ops, fetch_list ops)"] n(1)
    by (auto simp: e d chosen_entry_def split: option.split)
qed simp

text \<open>
  Claim C7. \<open>get_var_location\<close> evaluates the chosen entry, when it has no branches, on an empty stack, or, with
  an initial entry, on a stack that holds the number of the flag \<open>h_initial\<close> and not the initial
  value \<open>inital\<close>; every failure is code 1.
\<close>

theorem variable_location:
  assumes "die_attr lib var_die attr = (DW_DLV_OK, at)" "get_loclist lib at = (DW_DLV_OK, head, length ls)" "ls \<noteq> []"
    and "\<forall>i<length ls. locdesc_entry lib head i =
      (DW_DLV_OK, fst (ls ! i), fst (snd (ls ! i)), length (snd (snd (ls ! i))), fetch_list (snd (snd (ls ! i))))"
    and "chosen_entry ls (rip (callee_regs_cur_value li) - li_load_address li) = (lo, hi, ops)"
    and "\<forall>oper\<in>set ops. \<not> branch_op oper" "length ops < fuel"
  shows "get_var_location fuel tr b0 lib dbg li var_die attr var_addr =
    (case list_eval (\<lambda>_ a. tr_peek tr (tracee dbg) a) b0 li 0 ops
        (if h_initial li \<noteq> 0 then [scast (h_initial li)] else []) var_addr of
       Crash \<Rightarrow> Crash_run | Ret r v \<Rightarrow> Value (if r \<noteq> 0 then 1 else 0, v))"
proof -
  define e where "e = (if h_initial li \<noteq> 0 then snd (push_expr_tkn (init_expr li) (scast (h_initial li))) else init_expr li)"
  have e: "wf_expr e" "loc_info e = li" "stk e = (if h_initial li \<noteq> 0 then [scast (h_initial li)] else [])"
    by (simp_all add: e_def push_expr_tkn_def init_expr_def wf_expr_def stk_def take_Suc_conv_app_nth)
  have l: "locdesc_loop lib head (rip (callee_regs_cur_value li) - li_load_address li) [0..<length ls] cur =
      Inr (length ops, fetch_list ops)" for cur
    using locdesc_loop_chosen [of ls lib head 0 "rip (callee_regs_cur_value li) - li_load_address li" cur] assms(3-5) by simp
  from evaluate_straight_run [OF e(1) assms(6,7), of "\<lambda>_ a. tr_peek tr (tracee dbg) a" b0 var_addr] e(2,3)
  have "evaluate_expr fuel (\<lambda>_ a. tr_peek tr (tracee dbg) a) b0 e (length ops) (fetch_list ops) 0 var_addr =
    Some (list_eval (\<lambda>_ a. tr_peek tr (tracee dbg) a) b0 li 0 ops
        (if h_initial li \<noteq> 0 then [scast (h_initial li)] else []) var_addr)" by simp
  then show ?thesis
    using assms(1,2) l unfolding get_var_location_def e_def [symmetric]
    by (simp add: Let_def e_def [symmetric] split: eval_out.split)
qed

theorem variable_location_witness:
  "get_var_location 2 sim_tracer (\<lambda>_. 0) sample_lib trailing_dbg
     ((new_loc_info trailing_dbg 0 0)\<lparr>frame_base := 0x7000\<rparr>)
     (Some (mk_die DW_TAG_variable ''v'' 0 0 [], [])) DW_AT_location 0 = Value (0, 0x7010)"
proof -
  let ?ls = "[(0 :: UWORD, 0x2000 :: UWORD, [mk_op DW_OP_fbreg 0 16])]"
  let ?li = "(new_loc_info trailing_dbg 0 0)\<lparr>frame_base := 0x7000\<rparr>"
  have "get_var_location 2 sim_tracer (\<lambda>_. 0) sample_lib trailing_dbg ?li
     (Some (mk_die DW_TAG_variable ''v'' 0 0 [], [])) DW_AT_location 0 =
    (case list_eval (\<lambda>_ a. tr_peek sim_tracer (tracee trailing_dbg) a) (\<lambda>_. 0) ?li 0 [mk_op DW_OP_fbreg 0 16]
        (if h_initial ?li \<noteq> 0 then [scast (h_initial ?li)] else []) 0 of
       Crash \<Rightarrow> Crash_run | Ret r v \<Rightarrow> Value (if r \<noteq> 0 then 1 else 0, v))"
    by (rule variable_location [where ls = ?ls and head = ?ls and lo = 0 and hi = "0x2000" and at = "(0, 0x18, ?ls)"])
      (simp_all add: sample_defs mk_die_def sample_attrs_def chosen_entry_def new_loc_info_def zero_regs_def
        trailing_dbg_def sim_dbg_def branch_op_def mk_op_def)
  then show ?thesis
    by (simp add: new_loc_info_def trailing_dbg_def sim_dbg_def mk_op_def opcode_tables apush_def branch_op_def)
qed

subsection \<open>The end of the parameters command\<close>

lemma param_loop_end:
  fixes dbg :: "('k, 'm, 'h, 'z) Debugger_scheme"
  assumes F: "die_forest lib repr" and K: "set us \<subseteq> kids"
    and P: "\<forall>fuel\<ge>n. \<forall>d i (dbg :: ('k, 'm, 'h, 'z) Debugger_scheme). hd (repr d) \<in> kids \<longrightarrow>
      (\<exists>dbg'. print_param fuel tr uw b0 show_float lib opt li (Some d) i dbg = Value (Inr (), dbg'))"
    and "us = (case prev of None \<Rightarrow> d_children (hd (repr die)) | Some p \<Rightarrow> tl (repr p))" "n + length us + 1 < fuel"
  shows "if us \<noteq> [] \<and> i_tag (d_info (last us)) \<noteq> DW_TAG_formal_parameter \<and> (prev \<noteq> None \<or> 1 < length us)
    then param_loop fuel tr uw b0 show_float lib opt li (Some die) prev i dbg = Crash_run
    else \<exists>dbg'. param_loop fuel tr uw b0 show_float lib opt li (Some die) prev i dbg = Value (0, dbg')"
  using assms(2,4,5)
proof (induction "length us" arbitrary: us prev i dbg fuel rule: less_induct)
  case less
  then obtain fu where fu: "fuel = Suc fu" "n + length us < fu" by (cases fuel) auto
  let ?P = "\<lambda>t. i_tag (d_info t) = DW_TAG_formal_parameter"
  show ?case
  proof (cases "\<exists>t\<in>set us. ?P t")
    case False
    then have "us = [] \<or> \<not> ?P (last us)" using last_in_set by blast
    moreover from params.get_end [OF F less.prems(2), of fu] False fu(2) obtain fp fr where
      "get_formal_params fu lib (Some die) prev = Value (DW_DLV_NO_ENTRY, fp, fr)"
      "fp \<noteq> None \<and> fp \<in> set fr \<longleftrightarrow> (if prev = None then 1 < length us else us \<noteq> [])" by auto
    ultimately show ?thesis unfolding fu(1) by auto
  next
    case True
    with params.get_any [OF F less.prems(2), of fu] fu(2) obtain d fr where
      g: "get_formal_params fu lib (Some die) prev = Value (DW_DLV_OK, Some d, fr)"
        "repr d = dropWhile (\<lambda>t. \<not> ?P t) us" by auto
    obtain t ts where d: "repr d = t # ts" using forestD(1) [OF F, of d] by (cases "repr d") auto
    obtain pre where s: "us = pre @ t # ts" using g(2) d by (metis takeWhile_dropWhile_id)
    have "hd (dropWhile (\<lambda>t. \<not> ?P t) us) = t" by (simp only: g(2) [symmetric] d list.sel)
    with hd_dropWhile [of "\<lambda>t. \<not> ?P t" us] True have t: "?P t" by auto
    from P [rule_format, of fu d i dbg] fu(2) d s less.prems(1) obtain dbg' where
      "print_param fu tr uw b0 show_float lib opt li (Some d) i dbg = Value (Inr (), dbg')" by auto
    then have run: "param_loop fuel tr uw b0 show_float lib opt li (Some die) prev i dbg =
        param_loop fu tr uw b0 show_float lib opt li (Some die) (Some d) (i + 1) dbg'"
      using g(1) unfolding fu(1) by simp
    have "length ts < length us" "set ts \<subseteq> kids" "n + length ts + 1 < fu"
      "ts = (case Some d of None \<Rightarrow> d_children (hd (repr die)) | Some p \<Rightarrow> tl (repr p))"
      using s less.prems(1) d fu(2) by simp_all
    from less.hyps [OF this(1,2,4,3), of "i + 1" dbg'] s t show ?thesis
      unfolding run by (cases ts) (auto split: if_splits)
  qed
qed

text \<open>
  Claim C8. Printing the parameters gives a handle back twice exactly when the subprogram has at least two
  children and the last of them is not a parameter. Otherwise, and so for no child and for a single
  child of any kind, it returns 0.
\<close>

theorem param_double_free:
  fixes dbg :: "('k, 'm, 'h, 'z) Debugger_scheme"
  assumes "die_forest lib repr"
    and "var_context fuel tr uw b0 lib dbg = Value (Inr (li, pc, Some die), dbg1)"
    and "die_name lib (Some die) = (DW_DLV_OK, nm)" "kids = d_children (hd (repr die))"
    and "\<forall>fuel\<ge>n. \<forall>d i (dbg :: ('k, 'm, 'h, 'z) Debugger_scheme). hd (repr d) \<in> set kids \<longrightarrow>
      (\<exists>dbg'. print_param fuel tr uw b0 show_float lib opt li (Some d) i dbg = Value (Inr (), dbg'))"
    and "n + length kids + 1 < fuel"
  shows "if 2 \<le> length kids \<and> i_tag (d_info (last kids)) \<noteq> DW_TAG_formal_parameter
    then handle_param_var fuel tr uw b0 show_float lib dbg opt = Crash_run
    else \<exists>dbg'. handle_param_var fuel tr uw b0 show_float lib dbg opt = Value (0, dbg')"
proof -
  define dbg2 where "dbg2 = fprintf ''Printing formal parameter addresses of func: %s'' [OStr nm] dbg1"
  have "handle_param_var fuel tr uw b0 show_float lib dbg opt =
      param_loop fuel tr uw b0 show_float lib opt li (Some die) None 0 dbg2"
    using assms(2,3) by (simp add: handle_param_var_def dbg2_def)
  with param_loop_end [OF assms(1) subset_refl assms(5), where prev = None and die = die and fuel = fuel and i = 0
      and dbg = dbg2] assms(4,6)
  show ?thesis by (auto simp: ends_dangling_def split: if_splits)
qed

lemma trailing_loc_info:
  "\<exists>li. init_loc_info sim_tracer sim_unwinder trailing_dbg (new_loc_info trailing_dbg 0 0) = (0, li)
     \<and> h_initial li = 0 \<and> li_load_address li = 0 \<and> frame_base li = 0 \<and> rip (callee_regs_cur_value li) = 0x1000"
  by (simp add: init_loc_info_def get_regs_struct_def sim_tracer_def sim_unwinder_def
      get_preserved_registers_def new_loc_info_def trailing_dbg_def sim_dbg_def sim_start_def)

lemma trailing_pc: "get_reg_value sim_tracer trailing_dbg REG_rip = (0, Some 0x1000)"
  by (simp add: get_reg_value_def get_regs_struct_def sim_tracer_def trailing_dbg_def sim_dbg_def sim_start_def get_register_rip)

abbreviation (input) "six \<equiv> Suc (Suc (Suc (Suc (Suc (Suc 0)))))"

lemma trailing_sub_prog:
  "\<exists>h. get_sub_prog_die_from_addr six sample_lib 0x1000 (dwarf_dbg trailing_dbg) =
     Value (DW_DLV_NO_ENTRY, Some (trailing_function, []), h)"
  by (simp add: get_sub_prog_die_from_addr_def get_cu_from_addr_def sample_defs on_die_def mk_die_def trailing_dbg_def sim_dbg_def
      text_result_def handle_def die_contains_addr_offset_def get_low_high_pc_from_die_def
      trailing_function_def trailing_kids_def)

lemma trailing_frame_base:
  assumes "h_initial li = 0" "li_load_address li = 0" "rip (callee_regs_cur_value li) = 0x1000"
  shows "\<exists>v. get_var_location six tr b0 sample_lib dbg li (Some (trailing_function, [])) DW_AT_frame_base 0 = Value (0, v)"
  using evaluate_one [where info = li and oper = "mk_op DW_OP_call_frame_cfa 0 0" and fuel = six
      and peek = "\<lambda>_ a. tr_peek tr (tracee dbg) a" and ?b0.0 = b0 and result = 0, OF refl] assms
  by (simp add: get_var_location_def sample_defs trailing_function_def mk_die_def sample_attrs_def branch_op_def
      mk_op_def opcode_tables apush_def list_register_def)

lemma trailing_print:
  "hd (tree_repr d) \<in> set trailing_kids \<Longrightarrow>
    \<exists>dbg'. print_param fuel tr uw b0 show_float sample_lib opt li (Some d) i dbg = Value (Inr (), dbg')"
  by (cases d) (auto simp: print_param_def get_var_location_def sample_defs mk_die_def sample_attrs_def
      on_die_def text_result_def tree_repr_def trailing_kids_def)

theorem param_double_free_witness:
  "handle_param_var 6 sim_tracer sim_unwinder (\<lambda>_. 0) (\<lambda>_. []) sample_lib trailing_dbg GET_VAR_ADDR_OPTION = Crash_run"
proof -
  have six: "6 = six" by simp
  obtain li where li: "init_loc_info sim_tracer sim_unwinder trailing_dbg (new_loc_info trailing_dbg 0 0) = (0, li)"
    "h_initial li = 0" "li_load_address li = 0" "frame_base li = 0" "rip (callee_regs_cur_value li) = 0x1000"
    using trailing_loc_info by blast
  have la: "load_address trailing_dbg = 0" by (simp add: trailing_dbg_def sim_dbg_def)
  obtain h where h: "get_sub_prog_die_from_addr six sample_lib 0x1000 (dwarf_dbg trailing_dbg) =
      Value (DW_DLV_NO_ENTRY, Some (trailing_function, []), h)" using trailing_sub_prog by blast
  obtain v where "get_var_location six sim_tracer (\<lambda>_. 0) sample_lib (trailing_dbg\<lparr>dwarf_dbg := h\<rparr>) li
      (Some (trailing_function, [])) DW_AT_frame_base 0 = Value (0, v)"
    using trailing_frame_base [OF li(2,3,5)] by blast
  then have "var_context 6 sim_tracer sim_unwinder (\<lambda>_. 0) sample_lib trailing_dbg =
      Value (Inr (li\<lparr>frame_base := v\<rparr>, 0x1000, Some (trailing_function, [])), trailing_dbg\<lparr>dwarf_dbg := h\<rparr>)"
    unfolding six using li(1,4) trailing_pc h by (simp add: var_context_def la)
  note ctx = this
  have nm: "die_name sample_lib (Some (trailing_function, [])) = (DW_DLV_OK, ''f'')"
    by (simp add: trailing_function_def mk_die_def sample_defs on_die_def text_result_def)
  have k: "trailing_kids = d_children (hd (tree_repr (trailing_function, [])))"
    by (simp add: trailing_function_def mk_die_def tree_repr_def)
  have "0 + length trailing_kids + 1 < 6"
    "2 \<le> length trailing_kids \<and> i_tag (d_info (last trailing_kids)) \<noteq> DW_TAG_formal_parameter"
    by (simp_all add: trailing_kids_def mk_die_def)
  moreover have "\<forall>fuel\<ge>0. \<forall>d i (dbg :: (sim, unit, die_tree list \<times> die_tree list) Debugger).
      hd (tree_repr d) \<in> set trailing_kids \<longrightarrow> (\<exists>dbg'. print_param fuel sim_tracer sim_unwinder (\<lambda>_. 0) (\<lambda>_. []) sample_lib GET_VAR_ADDR_OPTION (li\<lparr>frame_base := v\<rparr>) (Some d) i dbg = Value (Inr (), dbg'))"
    by (intro allI impI trailing_print)
  ultimately show ?thesis
    using param_double_free [OF sample_lib_forest ctx nm k, where n = 0 and opt = GET_VAR_ADDR_OPTION and show_float = "\<lambda>_. []"]
    by (simp only: simp_thms if_True)
qed

end
