(* ===== verification/Repl.thy ===== *)
theory Repl
  imports Variables
begin

section \<open>The command loop (\<^verbatim>\<open>debugger/debugger.c\<close>, \<^verbatim>\<open>debugger/main.c\<close>)\<close>

text \<open>
  Start-up, the dispatch of commands and the loop over the lines of the user. The record \<open>world\<close>
  holds the parameters of the handlers: the kernel, libunwind, the hash map, libdwarf and the text of
  a floating-point number, the register tables, and the indeterminate values that the handlers can
  read (the missing return value of \<open>copy_breakpoint\<close>, the program counter of \<open>handle_step\<close>, the
  register of \<open>handle_register\<close>, the local variables of the operations).
\<close>

record ('k, 'm, 'u, 'h, 'd, 'c, 'l, 'a, 'e) world =
  w_kernel :: "'k tracer"
  w_unwinder :: "('k, 'u) unwinder"
  w_map :: "'m hashmap"
  w_dwarf :: "('h, 'd, 'c, 'l, 'a, 'e) dwarf_vars"
  w_float :: "UWORD \<Rightarrow> string"
  w_regs :: reg_tables
  w_ret :: C_int
  w_pc :: UWORD
  w_reg :: REGISTER
  w_junk :: "nat \<Rightarrow> UWORD"

subsection \<open>Dispatch\<close>

definition handle_command :: "nat \<Rightarrow> ('k, 'm, 'u, 'h, 'd, 'c, 'l, 'a, 'e) world \<Rightarrow> ('k, 'm, 'h, 'z) Debugger_scheme
    \<Rightarrow> COMMAND \<Rightarrow> Buffer \<Rightarrow> (C_int \<times> ('k, 'm, 'h, 'z) Debugger_scheme) run" where
  "handle_command fuel w dbg cmnd buffer =
    (case cmnd of
       CONTINUE \<Rightarrow> Value (handle_continue (w_ret w) (w_kernel w) (w_map w) dbg)
     | BREAKPOINT \<Rightarrow> handle_breakpoint (w_ret w) fuel (w_kernel w) (w_map w) (w_dwarf w) dbg buffer
     | REG \<Rightarrow> handle_register (w_regs w) (w_reg w) (w_kernel w) dbg buffer
     | STEP \<Rightarrow> handle_step fuel (w_pc w) (w_ret w) (w_kernel w) (w_map w) dbg buffer
     | WHERE \<Rightarrow> handle_where fuel (w_kernel w) (w_dwarf w) dbg buffer
     | FINISH \<Rightarrow> Value (step_out (w_ret w) (w_kernel w) (w_unwinder w) (w_map w) dbg)
     | NEXT \<Rightarrow> step_in (w_ret w) fuel (w_kernel w) (w_unwinder w) (w_map w) (w_dwarf w) dbg
     | BACKTRACE \<Rightarrow> backtrace fuel (w_unwinder w) dbg
     | VAR \<Rightarrow> handle_var fuel (w_kernel w) (w_unwinder w) (w_junk w) (w_float w) (w_dwarf w) dbg buffer
     | PEEK_DATA \<Rightarrow> handle_peek (w_kernel w) dbg buffer
     | _ \<Rightarrow> Value (1, fprintf ''Unknown command'' [] dbg))"

subsection \<open>The loop\<close>

definition print_verdict :: "C_int \<Rightarrow> ('k, 'm, 'h, 'z) Debugger_scheme \<Rightarrow> ('k, 'm, 'h, 'z) Debugger_scheme" where
  "print_verdict res dbg =
    (if res = 0 \<or> res = DEBUGEE_EXITED then fprintf ''OK'' [] dbg else fprintf ''!x!'' [] dbg)"

text \<open>
  The inner loop over the commands of a line. The handlers move only the read cursor of the buffer,
  which is reset after them. The result is the last code and command, and the state.
\<close>

fun command_loop :: "nat \<Rightarrow> ('k, 'm, 'u, 'h, 'd, 'c, 'l, 'a, 'e) world \<Rightarrow> COMMAND \<Rightarrow> Buffer \<Rightarrow> Buffer
    \<Rightarrow> ('k, 'm, 'h, 'z) Debugger_scheme \<Rightarrow> (C_int \<times> COMMAND \<times> Buffer \<times> Buffer \<times> ('k, 'm, 'h, 'z) Debugger_scheme) run" where
  "command_loop 0 w cmnd buffer line dbg = NoFuel"
| "command_loop (Suc fuel) w cmnd buffer line dbg =
    run_bind (run_of (parse_input buffer line)) (\<lambda>(res, buffer, line).
      if res = 0 then Value (0, cmnd, buffer, line, dbg)
      else if res < 0 then command_loop fuel w INVALID_CMD (reset_seek buffer) line dbg
      else run_bind (take_token buffer) (\<lambda>(_, s, buffer).
        let cmnd = match_command s in
        if cmnd = EXIT then Value (res, cmnd, buffer, line, dbg)
        else run_bind (handle_command fuel w dbg cmnd buffer) (\<lambda>(res, dbg).
          let dbg = print_verdict res dbg in
          if res = DEBUGEE_EXITED then Value (res, cmnd, buffer, line, dbg)
          else command_loop fuel w cmnd (reset_seek buffer) line dbg)))"

text \<open>
  The outer loop, on the lines that \<open>linenoise\<close> will return until the end of the input. Before the
  first line \<open>cmnd\<close> is indeterminate.
\<close>

fun line_loop :: "nat \<Rightarrow> ('k, 'm, 'u, 'h, 'd, 'c, 'l, 'a, 'e) world \<Rightarrow> string list \<Rightarrow> C_int \<Rightarrow> COMMAND \<Rightarrow> Buffer \<Rightarrow> Buffer
    \<Rightarrow> ('k, 'm, 'h, 'z) Debugger_scheme \<Rightarrow> ('k, 'm, 'h, 'z) Debugger_scheme run" where
  "line_loop fuel w [] res cmnd buffer line dbg = Value dbg"
| "line_loop fuel w (x # xs) res cmnd buffer line dbg =
    (if res \<noteq> DEBUGEE_EXITED \<and> cmnd \<noteq> EXIT then
       run_bind (command_loop fuel w cmnd buffer (snd (poll_input (Some x) line)) dbg) (\<lambda>(res, cmnd, buffer, line, dbg).
         line_loop fuel w xs res cmnd buffer (reset_seek line) dbg)
     else Value dbg)"

definition get_waitpid_err :: "int \<Rightarrow> string" where
  "get_waitpid_err err = (if err = 11 then ''EAGAIN'' else if err = 10 then ''ECHILD'' else if err = 22 then ''EINVAL''
     else if err = 4 then ''EINTR'' else if err = 3 then ''ESRCH'' else ''Unknown err'')"

definition get_ptrace_err :: "int \<Rightarrow> string" where
  "get_ptrace_err err = (if err = 16 then ''EBUSY'' else if err = 14 then ''EFAULT'' else if err = 22 then ''EINVAL''
     else if err = 5 then ''EIO'' else if err = 1 then ''EPERM'' else if err = 3 then ''ESRCH'' else ''Unknown err'')"

text \<open>\<open>garbage\<close> is the content of the allocated command buffer.\<close>

definition run_debugger :: "nat \<Rightarrow> ('k, 'm, 'u, 'h, 'd, 'c, 'l, 'a, 'e) world \<Rightarrow> string \<Rightarrow> COMMAND \<Rightarrow> string list
    \<Rightarrow> ('k, 'm, 'h, 'z) Debugger_scheme option \<Rightarrow> (C_int \<times> ('k, 'm, 'h, 'z) Debugger_scheme option) run" where
  "run_debugger fuel w garbage cmnd inputs dbg =
    (case dbg of None \<Rightarrow> Value (1, None)
     | Some dbg \<Rightarrow>
       (case wait_and_handle_signal (w_kernel w) dbg of (res, dbg) \<Rightarrow>
          let errno = tr_errno (w_kernel w) (tracee dbg) in
          if res = WAIT_PID_ERROR then
            Value (res, Some (fprintf ''Error %i on wait_for_signal: %s'' [OInt errno, OStr (get_waitpid_err errno)] dbg))
          else if res = PTRACE_ERROR then
            Value (res, Some (fprintf ''Error %i on ptrace: %s'' [OInt errno, OStr (get_ptrace_err errno)] dbg))
          else if res \<noteq> 0 then Value (res, Some (fprintf ''Failed to start main loop: %i'' [OInt res] dbg))
          else run_bind (line_loop fuel w inputs res cmnd (new_buffer CMD_MAX_SIZE garbage) (new_buffer 0 []) dbg)
            (\<lambda>dbg. Value (0, Some (fprintf ''Debugee terminated'' [] dbg)))))"


subsection \<open>Start-up\<close>

text \<open>
  The record \<open>system\<close> holds what the start-up asks for: the output of a shell command (\<open>popen\<close>), the
  opening of the debug information, whether libunwind gives an address space and a context, an empty
  map, the process, \<open>errno\<close>, whether an indeterminate pointer is \<open>NULL\<close>, and the effect of detaching.
\<close>

record ('k, 'm, 'h) system =
  s_popen :: "string \<Rightarrow> string option"
  s_init_path :: "string \<Rightarrow> int \<times> 'h"
  s_addr_space :: bool
  s_context :: bool
  s_new_map :: 'm
  s_child :: 'k
  s_errno :: int
  s_null :: bool
  s_detach :: "'k \<Rightarrow> 'k"

text \<open>\<open>fgets\<close> reads the first line, at most 63 characters; its newline ends the number like its end does.\<close>

definition get_load_address :: "(string \<Rightarrow> string option) \<Rightarrow> nat \<Rightarrow> C_int \<times> WORD" where
  "get_load_address popen pid =
    (case popen (''cat /proc/'' @ nat_text 8 pid @ ''/maps | head -c 16'') of
       None \<Rightarrow> (1, 0)
     | Some s \<Rightarrow> if s = [] then (1, 0)
         else (0, word_of_int (fst (strtoll 16 (take 63 (takeWhile (\<lambda>c. c \<noteq> CHR 0x0A) s))))))"

definition init_dwarf :: "(string \<Rightarrow> int \<times> 'h) \<Rightarrow> string \<Rightarrow> C_int \<times> 'h" where
  "init_dwarf init_path path =
    (case init_path path of (res, h) \<Rightarrow>
       if res = DW_DLV_ERROR then (-1, h) else if res = DW_DLV_NO_ENTRY then (-1, h) else (0, h))"

definition init_unw :: "bool \<Rightarrow> bool \<Rightarrow> C_int" where
  "init_unw addr_space context = (if \<not> addr_space then 1 else if \<not> context then 1 else 0)"

definition new_debugger :: "('k, 'm, 'h) system \<Rightarrow> nat \<Rightarrow> string \<Rightarrow> C_int + ('k, 'm, 'h) Debugger" where
  "new_debugger sys pid program =
    (case get_load_address (s_popen sys) pid of (res, la) \<Rightarrow>
       if res \<noteq> 0 then Inl res
       else (case init_dwarf (s_init_path sys) program of (res, h) \<Rightarrow>
         if res \<noteq> 0 then Inl res
         else let res = init_unw (s_addr_space sys) (s_context sys) in
           if res \<noteq> 0 then Inl res
           else Inr \<lparr>c_pid = of_nat pid, load_address = la, breakpoints = s_new_map sys, dwarf_dbg = h,
                     tracee = s_child sys, out = []\<rparr>))"

text \<open>
  \<open>main\<close> on the arguments and the result of \<open>fork\<close>. The child goes on only when \<open>execvp\<close> fails. The
  result of \<open>new_debugger\<close> is not looked at: when it failed, \<open>dbg\<close> is indeterminate. The result is the
  exit code, what was printed and the process.
\<close>

definition main_process :: "nat \<Rightarrow> ('k, 'm, 'u, 'h, 'd, 'c, 'l, 'a, 'e) world \<Rightarrow> ('k, 'm, 'h) system \<Rightarrow> string \<Rightarrow> COMMAND
    \<Rightarrow> string list \<Rightarrow> string list \<Rightarrow> int \<Rightarrow> (C_int \<times> printed list \<times> 'k) run" where
  "main_process fuel w sys garbage cmnd inputs argv pid =
    (if length argv < 2 then
       Value (0, [(''Usage: VDB <program> <cmdline_arguments_to_program>'', [])], s_child sys)
     else if pid < 0 then Value (1, [(''Fork failed with error %i'', [OInt (s_errno sys)])], s_child sys)
     else if pid = 0 then Value (1, [(''Execl Error :%i'', [OInt (s_errno sys)])], s_child sys)
     else (case load_DW_mappings of None \<Rightarrow> Crash_run | Some t \<Rightarrow>
       let dbg = (case new_debugger sys (nat pid) (argv ! 1) of Inr dbg \<Rightarrow> Some (Some dbg)
         | Inl _ \<Rightarrow> if s_null sys then Some None else None) in
       (case dbg of None \<Rightarrow> Crash_run
        | Some dbg \<Rightarrow>
            run_bind (run_debugger fuel (w\<lparr>w_regs := t\<rparr>) garbage cmnd inputs dbg) (\<lambda>(err, dbg).
              case dbg of None \<Rightarrow> Value (1, [(''Encountered an error: %i'', [OInt err])], s_child sys)
              | Some dbg \<Rightarrow>
                  if err \<noteq> 0 then Value (1, out dbg @ [(''Encountered an error: %i'', [OInt err])], tracee dbg)
                  else Value (0, out dbg, s_detach sys (tracee dbg))))))"

end
