(* ===== verification/Repl_Session.thy ===== *)
theory Repl_Session
  imports Repl
begin

section \<open>Sessions as texts\<close>

text \<open>
  The loop of the debugger on byte buffers and cursors implements a loop on lists of words.
\<close>

subsection \<open>The handlers and the tokens\<close>

text \<open>
  A handler sees of the command buffer only its tokens: two buffers that hold the same tokens give the
  same result.
\<close>

definition same_tokens :: "Buffer \<Rightarrow> Buffer \<Rightarrow> bool" where
  "same_tokens b b' \<longleftrightarrow> (\<exists>ts. holds_tokens b ts \<and> holds_tokens b' ts)"

text \<open>What \<open>take_token\<close> returns about the token \<open>s\<close>: the cursor is just behind it.\<close>

fun behind :: "nat option \<Rightarrow> string option \<Rightarrow> Buffer \<Rightarrow> bool" where
  "behind None None b = True"
| "behind (Some p) (Some s) b = (rseek b = p + Suc (length s))"
| "behind _ _ _ = False"

lemma behind_None [simp]: "behind p None b \<longleftrightarrow> p = None"
  by (cases p) auto

lemma behind_Some [simp]: "behind p (Some s) b \<longleftrightarrow> (\<exists>q. p = Some q \<and> rseek b = q + Suc (length s))"
  by (cases p) auto

lemma trailing_text_end: "rseek b = p + Suc (length s) \<Longrightarrow> trailing_text p s r b \<longleftrightarrow> length s - length r < length s"
  by (auto simp add: trailing_text_def)

lemma take_token_cong:
  assumes "same_tokens b b'"
    and "\<And>p p' s c c'. same_tokens c c' \<Longrightarrow> behind p s c \<Longrightarrow> behind p' s c' \<Longrightarrow> f (p, s, c) = f' (p', s, c')"
  shows "run_bind (take_token b) f = run_bind (take_token b') f'"
proof -
  from assms(1) obtain ts where H: "holds_tokens b ts" "holds_tokens b' ts" by (auto simp: same_tokens_def)
  show ?thesis
  proof (cases ts)
    case Nil
    with H assms(2) [of b b' None None None] assms(1) show ?thesis by (simp add: take_token_end)
  next
    case (Cons s us)
    with take_token_next [of b s us] take_token_next [of b' s us] H obtain p c p' c' where
      "take_token b = Value (Some p, Some s, c)" "holds_tokens c us" "rseek c = p + Suc (length s)"
      "take_token b' = Value (Some p', Some s, c')" "holds_tokens c' us" "rseek c' = p' + Suc (length s)" by blast
    with assms(2) [of c c' "Some p" "Some s" "Some p'"] show ?thesis by (auto simp: same_tokens_def)
  qed
qed

lemma same_if: "(P \<Longrightarrow> a = b) \<Longrightarrow> (\<not> P \<Longrightarrow> c = d) \<Longrightarrow> (if P then a else c) = (if P then b else d)"
  by simp

lemma same_option: "a = b \<Longrightarrow> (\<And>x. z = Some x \<Longrightarrow> f x = g x) \<Longrightarrow> case_option a f z = case_option b g z"
  by (cases z) simp_all

lemma same_pair: "(\<And>x y. z = (x, y) \<Longrightarrow> f x y = g x y) \<Longrightarrow> case_prod f z = case_prod g z"
  by (cases z) simp

lemma same_bind: "(\<And>x. f x = g x) \<Longrightarrow> run_bind r f = run_bind r g"
  by (cases r) simp_all

lemmas same_rules = take_token_cong same_if same_option same_pair same_bind

lemma handle_breakpoint_tokens:
  "same_tokens b b' \<Longrightarrow> handle_breakpoint ret fuel tr hm lib dbg b = handle_breakpoint ret fuel tr hm lib dbg b'"
  unfolding handle_breakpoint_def Let_def by (assumption | rule refl same_rules | simp only: prod.case)+

lemma handle_step_tokens:
  "same_tokens b b' \<Longrightarrow> handle_step fuel pc ret tr hm dbg b = handle_step fuel pc ret tr hm dbg b'"
  unfolding handle_step_def
  by (rule take_token_cong) (auto split: option.split prod.split simp: trailing_text_end)

lemma handle_where_tokens:
  "same_tokens b b' \<Longrightarrow> handle_where fuel tr lib dbg b = handle_where fuel tr lib dbg b'"
  unfolding handle_where_def Let_def by (assumption | rule refl same_rules | simp only: prod.case)+

lemma handle_peek_tokens: "same_tokens b b' \<Longrightarrow> handle_peek tr dbg b = handle_peek tr dbg b'"
  unfolding handle_peek_def by (assumption | rule refl same_rules | simp only: prod.case)+

lemma handle_var_tokens:
  "same_tokens b b' \<Longrightarrow> handle_var fuel tr uw b0 show_float lib dbg b = handle_var fuel tr uw b0 show_float lib dbg b'"
  unfolding handle_var_def by (assumption | rule refl same_rules | simp only: prod.case)+

lemma register_arg_tokens:
  "behind p (Some s) c \<Longrightarrow> behind p' (Some s) c' \<Longrightarrow>
    register_arg t reg0 n mode (the p) s c = register_arg t reg0 n mode (the p') s c'"
  by (auto simp: register_arg_def trailing_text_end split: prod.split)

lemma read_register_tokens:
  "behind p s c \<Longrightarrow> behind p' s c' \<Longrightarrow>
    read_register t reg0 regs dbg mode (p, s) c = read_register t reg0 regs dbg mode (p', s) c'"
  using register_arg_tokens [of p "the s" c p' c' t reg0 16 mode]
  by (cases s) (auto simp: read_register_def)

lemma write_register_tokens:
  assumes "same_tokens c c'" "behind p s c" "behind p' s c'"
  shows "write_register t reg0 tr dbg mode (p, s) c = write_register t reg0 tr dbg mode (p', s) c'"
proof (cases s)
  case None
  with assms(2,3) show ?thesis by (simp add: write_register_def)
next
  case (Some a)
  with assms(2,3) obtain q q' where q: "p = Some q" "p' = Some q'" by auto
  note r = register_arg_tokens [of p a c p' c' t reg0 10 mode, OF assms(2,3) [unfolded Some]]
  with r show ?thesis unfolding write_register_def Some q
    by (auto split: sum.split option.split prod.split simp: trailing_text_end intro!: take_token_cong [OF assms(1)])
qed

lemma handle_register_tokens:
  "same_tokens b b' \<Longrightarrow> handle_register t reg0 tr dbg b = handle_register t reg0 tr dbg b'"
  unfolding handle_register_def Let_def
  by (assumption | rule refl read_register_tokens write_register_tokens same_rules | simp only: prod.case)+


lemma handle_command_tokens:
  "same_tokens b b' \<Longrightarrow> handle_command fuel w dbg cmnd b = handle_command fuel w dbg cmnd b'"
  using handle_breakpoint_tokens handle_register_tokens handle_step_tokens handle_where_tokens handle_var_tokens
    handle_peek_tokens by (cases cmnd) (simp_all add: handle_command_def)

subsection \<open>The loop on words\<close>

text \<open>A buffer that holds given words, and a command given by its words.\<close>

definition word_buffer :: "string list \<Rightarrow> Buffer" where
  "word_buffer ts = \<lparr>data = Some (enc ts @ [NUL, NUL]), buf_size = length (enc ts) + 1, rseek = 0, wseek = length (enc ts)\<rparr>"

lemma word_buffer_holds: "\<forall>t\<in>set ts. t \<noteq> [] \<and> NUL \<notin> set t \<Longrightarrow> holds_tokens (word_buffer ts) ts"
  by (simp add: holds_tokens_def word_buffer_def cmd_buf_def written_def nth_append)

text \<open>
  The commands of a line, each a list of words: no buffers, no cursors, no zero bytes.
\<close>

fun run_commands :: "nat \<Rightarrow> ('k, 'm, 'u, 'h, 'd, 'c, 'l, 'a, 'e) world \<Rightarrow> COMMAND \<Rightarrow> string list list
    \<Rightarrow> ('k, 'm, 'h, 'z) Debugger_scheme \<Rightarrow> (C_int \<times> COMMAND \<times> ('k, 'm, 'h, 'z) Debugger_scheme) run" where
  "run_commands 0 w cmnd cl dbg = NoFuel"
| "run_commands (Suc fuel) w cmnd [] dbg = Value (0, cmnd, dbg)"
| "run_commands (Suc fuel) w cmnd (ts # cl) dbg =
    (let cmnd = match_command (case ts of [] \<Rightarrow> None | t # _ \<Rightarrow> Some t) in
     if cmnd = EXIT then Value (1, cmnd, dbg)
     else run_bind (handle_command fuel w dbg cmnd (word_buffer (tl ts))) (\<lambda>(res, dbg).
       let dbg = print_verdict res dbg in
       if res = DEBUGEE_EXITED then Value (res, cmnd, dbg) else run_commands fuel w cmnd cl dbg))"

text \<open>
  The text of the user, cut at the semicolons: the commands that are complete when \<open>s\<close> has been read
  behind the pending text \<open>p\<close>, and the text pending then.
\<close>

fun split_commands :: "string \<Rightarrow> string \<Rightarrow> string list \<times> string" where
  "split_commands p [] = ([], p)"
| "split_commands p (c # s) = (if c = CHR '';'' then (case split_commands [] s of (cl, u) \<Rightarrow> (p # cl, u))
     else split_commands (p @ [c]) s)"

text \<open>The lines of a session: a line end counts as space.\<close>

fun run_lines :: "nat \<Rightarrow> ('k, 'm, 'u, 'h, 'd, 'c, 'l, 'a, 'e) world \<Rightarrow> string \<Rightarrow> string list \<Rightarrow> C_int \<Rightarrow> COMMAND
    \<Rightarrow> ('k, 'm, 'h, 'z) Debugger_scheme \<Rightarrow> ('k, 'm, 'h, 'z) Debugger_scheme run" where
  "run_lines fuel w p [] res cmnd dbg = Value dbg"
| "run_lines fuel w p (x # xs) res cmnd dbg =
    (if res \<noteq> DEBUGEE_EXITED \<and> cmnd \<noteq> EXIT then
       (case split_commands p x of (cl, u) \<Rightarrow>
          run_bind (run_commands fuel w cmnd (map text_words cl) dbg) (\<lambda>(res, cmnd, dbg).
            run_lines fuel w (u @ '' '') xs res cmnd dbg))
     else Value dbg)"

text \<open>The texts that the command buffer has to hold.\<close>

fun command_texts :: "string \<Rightarrow> string list \<Rightarrow> string list" where
  "command_texts p [] = []"
| "command_texts p (x # xs) = (case split_commands p x of (cl, u) \<Rightarrow> cl @ (u @ '' '') # command_texts (u @ '' '') xs)"

text \<open>The command buffer holds the pending text.\<close>

definition pending :: "Buffer \<Rightarrow> string \<Rightarrow> bool" where
  "pending b p \<longleftrightarrow> cmd_buf b \<and> rseek b = 0 \<and> written b = foldl put [] p \<and> NUL \<notin> set p"

lemma written_length: "cmd_buf b \<Longrightarrow> length (written b) = wseek b"
  by (auto simp: written_def elim!: cmd_bufE)

lemma pending_length: "pending b p \<Longrightarrow> wseek b \<le> length p"
  using length_puts [of "[]" p] by (auto simp: pending_def dest!: written_length)

lemma pending_reset: "cmd_buf b \<Longrightarrow> pending (reset_seek b) []"
  by (simp add: pending_def buf_ops)

lemma split_unfinished: "CHR '';'' \<notin> set s \<Longrightarrow> split_commands p s = ([], p @ s)"
  by (induction s arbitrary: p) auto

lemma split_first: "CHR '';'' \<notin> set s \<Longrightarrow>
    split_commands p (s @ CHR '';'' # r) = (case split_commands [] r of (cl, u) \<Rightarrow> ((p @ s) # cl, u))"
  by (induction s arbitrary: p) auto

text \<open>Reading a text without a semicolon, up to the semicolon or to the end of the line.\<close>

lemma pending_semicolon:
  assumes "pending b p" "line_buf l" "remaining l = s @ CHR '';'' # r" "CHR '';'' \<notin> set s" "NUL \<notin> set s"
    and "length (p @ s) < buf_size b"
  shows "\<exists>b' l'. parse_input b l = Some (1, b', l') \<and> cmd_buf b' \<and> line_buf l' \<and> remaining l' = r
    \<and> holds_tokens b' (text_words (p @ s)) \<and> buf_size b' = buf_size b"
proof -
  have b: "cmd_buf b" "rseek b = 0" "written b = foldl put [] p" "NUL \<notin> set p"
    using assms(1) by (simp_all add: pending_def)
  from put_steps [OF b(1) assms(2,3,4)] pending_length [OF assms(1)] assms(6) obtain b1 l1 where
    1: "parse_loop b l = parse_loop b1 l1" "cmd_buf b1" "line_buf l1" "written b1 = foldl put [] (p @ s)"
      "remaining l1 = CHR '';'' # r" "rseek b1 = 0" "wseek b1 < buf_size b1" "buf_size b1 = buf_size b"
    by (fastforce simp: b(2,3))
  from parse_semicolon [OF 1(2,3,5,7)] 1 obtain b2 l2 where
    "parse_loop b l = Some (1, b2, l2)" "cmd_buf b2" "line_buf l2" "remaining l2 = r" "rseek b2 = 0"
      "written b2 = foldl put [] (p @ s) @ [NUL]" "buf_size b2 = buf_size b" by auto
  with written_holds [of b2 "p @ s"] b(4) assms(5) parse_input_line [OF assms(2)] show ?thesis by auto
qed

lemma pending_end:
  assumes "pending b p" "line_buf l" "remaining l = s" "CHR '';'' \<notin> set s" "NUL \<notin> set s"
    and "length (p @ s) < buf_size b"
  shows "\<exists>b' l'. parse_input b l = Some (0, b', l') \<and> pending b' (p @ s @ '' '') \<and> line_buf l'
    \<and> buf_size b' = buf_size b"
proof -
  have b: "cmd_buf b" "rseek b = 0" "written b = foldl put [] p" "NUL \<notin> set p"
    using assms(1) by (simp_all add: pending_def)
  have "remaining l = s @ []" using assms(3) by simp
  from put_steps [OF b(1) assms(2) this assms(4)] pending_length [OF assms(1)] assms(6) obtain b1 l1 where
    1: "parse_loop b l = parse_loop b1 l1" "cmd_buf b1" "line_buf l1" "written b1 = foldl put [] (p @ s)"
      "remaining l1 = []" "rseek b1 = 0" "wseek b1 < buf_size b1" "buf_size b1 = buf_size b"
    by (fastforce simp: b(2,3))
  from parse_line_end [OF 1(2,3,5,7)] 1 parse_input_line [OF assms(2)] b(4) assms(5) show ?thesis
    by (fastforce simp: pending_def)
qed


text \<open>The first token of a command, as a word; the size of the buffer stays.\<close>

lemma take_first_word:
  assumes "holds_tokens b ts"
  shows "\<exists>t b'. take_token b = Value (t, case ts of [] \<Rightarrow> None | s # _ \<Rightarrow> Some s, b') \<and> holds_tokens b' (tl ts)
    \<and> buf_size b' = buf_size b"
proof (cases ts)
  case Nil
  with assms show ?thesis by (auto simp: take_token_end)
next
  case (Cons s us)
  with holds_tokens_next [of b s us] assms obtain i b' where
    b': "next_token b = Some (Some i, b')" "tok_str b' (Some i) = Some (Some s)" "holds_tokens b' us" "data b' = data b"
    by blast
  have "buf_size b' = buf_size b"
    using assms b'(3,4) by (auto simp: holds_tokens_def elim!: cmd_bufE)
  with b' Cons show ?thesis by (simp add: take_token_def run_of_def)
qed

lemma command_loop_line:
  assumes "pending b p" "line_buf l" "remaining l = s" "NUL \<notin> set s" "split_commands p s = (cl, u)"
    and "\<forall>c\<in>insert u (set cl). length c < buf_size b"
  shows "case run_commands fuel w cmnd (map text_words cl) dbg of
      Value (res, cmnd', dbg') \<Rightarrow> \<exists>b' l'. command_loop fuel w cmnd b l dbg = Value (res, cmnd', b', l', dbg')
        \<and> buf_size l' = 0
        \<and> (res = DEBUGEE_EXITED \<or> cmnd' = EXIT \<or> pending b' (u @ '' '') \<and> buf_size b' = buf_size b)
    | Crash_run \<Rightarrow> command_loop fuel w cmnd b l dbg = Crash_run
    | NoFuel \<Rightarrow> command_loop fuel w cmnd b l dbg = NoFuel"
  using assms
proof (induction fuel arbitrary: b p l s cl cmnd dbg)
  case (Suc fuel)
  show ?case
  proof (cases "CHR '';'' \<in> set s")
    case False
    then have cl: "cl = []" "u = p @ s" using split_unfinished Suc.prems(5) by auto
    with pending_end [OF Suc.prems(1-3) False Suc.prems(4)] Suc.prems(6) obtain b' l' where
      e: "parse_input b l = Some (0, b', l')" "pending b' (u @ '' '')" "line_buf l'" "buf_size b' = buf_size b" by auto
    then have "command_loop (Suc fuel) w cmnd b l dbg = Value (0, cmnd, b', l', dbg)" by (simp add: run_of_def)
    with e cl(1) show ?thesis by (simp add: line_buf_def del: command_loop.simps)
  next
    case True
    then obtain s1 r where s: "s = s1 @ CHR '';'' # r" "CHR '';'' \<notin> set s1" by (meson split_list_first)
    obtain cl' u' where r: "split_commands [] r = (cl', u')" by (rule prod.exhaust)
    with Suc.prems(5) s have cl: "cl = (p @ s1) # cl'" "u' = u" by (auto simp: split_first)
    let ?ts = "text_words (p @ s1)"
    have n: "NUL \<notin> set (p @ s1)" "NUL \<notin> set s1" "NUL \<notin> set r" using Suc.prems(1,4) s by (auto simp: pending_def)
    from pending_semicolon [OF Suc.prems(1,2) _ s(2) n(2)] Suc.prems(3,6) s(1) cl(1) obtain b1 l1 where
      1: "parse_input b l = Some (1, b1, l1)" "line_buf l1" "remaining l1 = r" "holds_tokens b1 ?ts"
        "buf_size b1 = buf_size b" by auto
    define q where "q = (case ?ts of [] \<Rightarrow> None | s # _ \<Rightarrow> Some s)"
    from take_first_word [OF 1(4), folded q_def] obtain t b2 where
      2: "take_token b1 = Value (t, q, b2)" "holds_tokens b2 (tl ?ts)"
        "buf_size b2 = buf_size b" using 1(5) by auto
    have "\<forall>t\<in>set (tl ?ts). t \<noteq> [] \<and> NUL \<notin> set t"
      using text_words_clean [OF n(1)] by (cases ?ts) auto
    then have "same_tokens b2 (word_buffer (tl ?ts))"
      unfolding same_tokens_def by (intro exI [of _ "tl ?ts"] conjI 2(2) word_buffer_holds)
    then have h: "handle_command fuel w dbg c b2 = handle_command fuel w dbg c (word_buffer (tl ?ts))" for c
      by (rule handle_command_tokens)
    define c where "c = match_command q"
    have run: "command_loop (Suc fuel) w cmnd b l dbg =
      (if c = EXIT then Value (1, c, b2, l1, dbg)
       else run_bind (handle_command fuel w dbg c (word_buffer (tl ?ts))) (\<lambda>(res, dbg).
         if res = DEBUGEE_EXITED then Value (res, c, b2, l1, print_verdict res dbg)
         else command_loop fuel w c (reset_seek b2) l1 (print_verdict res dbg)))"
      using 1(1) 2(1) unfolding c_def by (simp add: run_of_def h Let_def)
    have spec: "run_commands (Suc fuel) w cmnd (map text_words cl) dbg =
      (if c = EXIT then Value (1, c, dbg)
       else run_bind (handle_command fuel w dbg c (word_buffer (tl ?ts))) (\<lambda>(res, dbg).
         if res = DEBUGEE_EXITED then Value (res, c, print_verdict res dbg)
         else run_commands fuel w c (map text_words cl') (print_verdict res dbg)))"
      unfolding cl(1) c_def q_def by (simp add: Let_def)
    have pend: "pending (reset_seek b2) []" using 2(2) by (auto simp: holds_tokens_def intro: pending_reset)
    have size: "buf_size (reset_seek b2) = buf_size b" using 2(3) by (simp add: buf_ops)
    have fit: "\<forall>c\<in>insert u (set cl'). length c < buf_size (reset_seek b2)" unfolding size using Suc.prems(6) cl(1) by simp
    note IH = Suc.IH [OF pend 1(2,3) n(3) r [unfolded cl(2)] fit, unfolded size]
    show ?thesis
    proof (cases "handle_command fuel w dbg c (word_buffer (tl ?ts))")
      case (Value v)
      obtain res dbg1 where v: "v = (res, dbg1)" by (rule prod.exhaust)
      show ?thesis
      proof (cases "c = EXIT \<or> res = DEBUGEE_EXITED")
        case True
        with Value v 1(2) show ?thesis unfolding run spec by (auto simp: line_buf_def)
      next
        case False
        with Value v have eqs: "command_loop (Suc fuel) w cmnd b l dbg =
            command_loop fuel w c (reset_seek b2) l1 (print_verdict res dbg1)"
          "run_commands (Suc fuel) w cmnd (map text_words cl) dbg =
            run_commands fuel w c (map text_words cl') (print_verdict res dbg1)"
          unfolding run spec by auto
        show ?thesis unfolding eqs by (rule IH)
      qed
    qed (use 1(2) in \<open>unfold run spec, auto simp: line_buf_def\<close>)
  qed
qed simp


lemma line_of_poll:
  assumes "buf_size line = 0" "NUL \<notin> set x"
  shows "line_buf (snd (poll_input (Some x) (reset_seek line)))"
    "remaining (snd (poll_input (Some x) (reset_seek line))) = x"
  using line_of_text [OF assms(2), of "reset_seek line"] assms(1) by (simp_all add: reset_seek_def)

lemma line_loop_text:
  assumes "res = DEBUGEE_EXITED \<or> cmnd = EXIT \<or> pending b p \<and> buf_size b = CMD_MAX_SIZE" "buf_size line = 0"
    and "\<forall>x\<in>set xs. NUL \<notin> set x" "\<forall>c\<in>set (command_texts p xs). length c < CMD_MAX_SIZE"
  shows "line_loop fuel w xs res cmnd b (reset_seek line) dbg = run_lines fuel w p xs res cmnd dbg"
  using assms
proof (induction xs arbitrary: res cmnd b p line dbg)
  case (Cons x xs)
  show ?case
  proof (cases "res = DEBUGEE_EXITED \<or> cmnd = EXIT")
    case False
    obtain cl u where cl: "split_commands p x = (cl, u)" by (rule prod.exhaust)
    let ?l = "snd (poll_input (Some x) (reset_seek line))"
    have P: "pending b p" "buf_size b = CMD_MAX_SIZE" "NUL \<notin> set x" using Cons.prems(1,3) False by auto
    have fit: "\<forall>c\<in>insert u (set cl). length c < buf_size b"
      using Cons.prems(4) cl P(2) by auto
    note line = command_loop_line [OF P(1) line_of_poll [OF Cons.prems(2) P(3)] P(3) cl fit, of fuel w cmnd dbg]
    show ?thesis
    proof (cases "run_commands fuel w cmnd (map text_words cl) dbg")
      case (Value r)
      obtain res' cmnd' dbg' where r: "r = (res', cmnd', dbg')" by (rule prod_cases3)
      from line Value r obtain b' l' where
        l: "command_loop fuel w cmnd b ?l dbg = Value (res', cmnd', b', l', dbg')" "buf_size l' = 0"
          "res' = DEBUGEE_EXITED \<or> cmnd' = EXIT \<or> pending b' (u @ '' '') \<and> buf_size b' = CMD_MAX_SIZE"
        using P(2) by auto
      from Cons.IH [OF l(3,2)] Cons.prems(3,4) cl Value r l(1) False show ?thesis by simp
    qed (use line cl False in simp_all)
  next
    case True
    then have "\<not> (res \<noteq> DEBUGEE_EXITED \<and> cmnd \<noteq> EXIT)" by blast
    then show ?thesis by (simp only: line_loop.simps run_lines.simps if_False)
  qed
qed simp

lemma line_loop_start:
  assumes "\<forall>x\<in>set inputs. NUL \<notin> set x" "\<forall>c\<in>set (command_texts [] inputs). length c < CMD_MAX_SIZE"
  shows "line_loop fuel w inputs res cmnd (new_buffer CMD_MAX_SIZE garbage) (new_buffer 0 []) dbg =
    run_lines fuel w [] inputs res cmnd dbg"
proof -
  have b: "pending (new_buffer CMD_MAX_SIZE garbage) []" "buf_size (new_buffer CMD_MAX_SIZE garbage) = CMD_MAX_SIZE"
    by (simp_all add: pending_def buf_ops CMD_MAX_SIZE_def) (simp_all add: new_buffer_def)
  have l: "buf_size (new_buffer 0 []) = 0" "reset_seek (new_buffer 0 []) = new_buffer 0 []"
    by (simp_all add: new_buffer_def reset_seek_def)
  from line_loop_text [OF _ l(1) assms, of res cmnd "new_buffer CMD_MAX_SIZE garbage" fuel w dbg] b
  show ?thesis unfolding l(2) by simp
qed


text \<open>
  Claim C4. The loop of the debugger implements the loop on words: whatever the handlers do, a session is the
  list of the commands of its text, cut at the semicolons and at spaces and line ends, each carried out
  once and in order until one is \<open>exit\<close> or the process has ended, provided that no command is longer
  than the buffer. Crashes and fuel included, the two are the same.
\<close>

theorem command_loop_refines:
  assumes "\<forall>x\<in>set inputs. NUL \<notin> set x" "\<forall>c\<in>set (command_texts [] inputs). length c < CMD_MAX_SIZE"
  shows "line_loop fuel w inputs res cmnd (new_buffer CMD_MAX_SIZE garbage) (new_buffer 0 []) dbg =
    run_lines fuel w [] inputs res cmnd dbg"
  by (rule line_loop_start [OF assms])

theorem command_loop_refines_witness:
  "\<forall>w (dbg :: ('k, 'm, 'h) Debugger). line_loop 3 (w :: ('k, 'm, 'u, 'h, 'd, 'c, 'l, 'a, 'e) world)
       [''foo'', ''; exit ;peek 0;'', ''next;''] 0 INVALID_CMD (new_buffer CMD_MAX_SIZE []) (new_buffer 0 []) dbg
     = Value (fprintf ''!x!'' [] (fprintf ''Unknown command'' [] dbg))"
proof (intro allI)
  fix w :: "('k, 'm, 'u, 'h, 'd, 'c, 'l, 'a, 'e) world" and dbg :: "('k, 'm, 'h) Debugger"
  have three: "(3 :: nat) = Suc (Suc (Suc 0))" by simp
  have words: "text_words ''foo '' = [''foo'']" "text_words '' exit '' = [''exit'']" "text_words ''peek 0'' = [''peek'', ''0'']"
    by (simp_all add: text_words_def is_whitespace_def)
  have "run_lines 3 w [] [''foo'', ''; exit ;peek 0;'', ''next;''] 0 INVALID_CMD dbg =
      Value (fprintf ''!x!'' [] (fprintf ''Unknown command'' [] dbg))"
    by (simp add: three words match_command_def handle_command_def print_verdict_def)
  with command_loop_refines [of "[''foo'', ''; exit ;peek 0;'', ''next;'']" 3 w 0 INVALID_CMD "[]" dbg]
  show "line_loop 3 w [''foo'', ''; exit ;peek 0;'', ''next;''] 0 INVALID_CMD (new_buffer CMD_MAX_SIZE []) (new_buffer 0 []) dbg
     = Value (fprintf ''!x!'' [] (fprintf ''Unknown command'' [] dbg))" by (simp add: CMD_MAX_SIZE_def)
qed

text \<open>A word that does not fit the buffer stops the parse one character behind its end.\<close>

lemma parse_overflow:
  assumes "cmd_buf b" "line_buf l" "remaining l = s @ x # r" "wseek b + length s = buf_size b"
    and "\<forall>c\<in>set (s @ [x]). c \<noteq> CHR '';'' \<and> \<not> is_whitespace c"
  shows "\<exists>b' l'. parse_loop b l = Some (-1, b', l') \<and> cmd_buf b' \<and> line_buf l' \<and> remaining l' = r
    \<and> buf_size b' = buf_size b"
  using assms
proof (induction s arbitrary: b l)
  case Nil
  then have rem: "remaining l = x # r" by simp
  from line_read [OF Nil.prems(2) rem] Nil.prems write_full [of b x] show ?case
    by (subst parse_loop.simps) auto
next
  case (Cons c s)
  then have rem: "remaining l = c # (s @ x # r)" by simp
  from Cons.prems(4) have "wseek b < buf_size b" by simp
  from write_ok [OF Cons.prems(1) this, of c] obtain b' where
    b': "write_to_buffer b c = Some (0, b')" "cmd_buf b'" "buf_size b' = buf_size b" "wseek b' = Suc (wseek b)" by blast
  let ?l = "l\<lparr>rseek := Suc (rseek l)\<rparr>"
  have "parse_loop b l = parse_loop b' ?l"
    using line_read [OF Cons.prems(2) rem] Cons.prems(5) b'(1) by (subst parse_loop.simps) simp
  moreover have "wseek b' + length s = buf_size b'" using Cons.prems(4) b'(3,4) by simp
  ultimately show ?case
    using Cons.IH [OF b'(2) line_read(3,4) [OF Cons.prems(2) rem]] Cons.prems(5) b'(3) by simp
qed

text \<open>
  Claim C39. A command that does not fit the buffer is not refused: what has been read of it is dropped without a
  message, and the rest of the line is carried out as a command of its own.
\<close>

theorem overflow_runs_tail:
  assumes "cmd_buf b" "wseek b = 0" "line_buf l" "remaining l = s @ x # r" "length s = buf_size b"
    and "\<forall>c\<in>set (s @ [x]). c \<noteq> CHR '';'' \<and> \<not> is_whitespace c"
  shows "\<exists>b' l'. command_loop (Suc fuel) w cmnd b l dbg = command_loop fuel w INVALID_CMD b' l' dbg
    \<and> cmd_buf b' \<and> written b' = [] \<and> rseek b' = 0 \<and> buf_size b' = buf_size b \<and> line_buf l' \<and> remaining l' = r"
proof -
  from assms(2,5) have "wseek b + length s = buf_size b" by simp
  from parse_overflow [OF assms(1,3,4) this assms(6)] parse_input_line [OF assms(3)] obtain b' l' where
    o: "parse_input b l = Some (-1, b', l')" "cmd_buf b'" "line_buf l'" "remaining l' = r" "buf_size b' = buf_size b" by auto
  then have "command_loop (Suc fuel) w cmnd b l dbg = command_loop fuel w INVALID_CMD (reset_seek b') l' dbg"
    by (simp add: run_of_def)
  with o show ?thesis by (intro exI [of _ "reset_seek b'"] exI [of _ l']) (simp add: buf_ops del: command_loop.simps)
qed

theorem overflow_runs_tail_witness:
  "\<forall>w (dbg :: ('k, 'm, 'h) Debugger). \<exists>b' l'.
     command_loop 2 (w :: ('k, 'm, 'u, 'h, 'd, 'c, 'l, 'a, 'e) world) INVALID_CMD (new_buffer 2 [])
       (snd (poll_input (Some ''abcexit;'') (new_buffer 0 []))) dbg = command_loop 1 w INVALID_CMD b' l' dbg
     \<and> remaining l' = ''exit;''"
proof (intro allI)
  fix w :: "('k, 'm, 'u, 'h, 'd, 'c, 'l, 'a, 'e) world" and dbg :: "('k, 'm, 'h) Debugger"
  let ?l = "snd (poll_input (Some ''abcexit;'') (new_buffer 0 []))"
  have l: "line_buf ?l" "remaining ?l = ''ab'' @ CHR ''c'' # ''exit;''"
    using line_of_text [of "''abcexit;''" "new_buffer 0 []"] by (simp_all add: new_buffer_def)
  have b: "cmd_buf (new_buffer 2 [])" "wseek (new_buffer 2 []) = 0" "buf_size (new_buffer 2 []) = 2"
    by (simp_all add: buf_ops) (simp_all add: new_buffer_def)
  have "length ''ab'' = buf_size (new_buffer 2 [])" by (simp add: b(3))
  from overflow_runs_tail [OF b(1,2) l this, of 1 w INVALID_CMD dbg]
  show "\<exists>b' l'. command_loop 2 w INVALID_CMD (new_buffer 2 []) ?l dbg = command_loop 1 w INVALID_CMD b' l' dbg
     \<and> remaining l' = ''exit;''"
    by (auto simp: is_whitespace_def numeral_2_eq_2 simp del: command_loop.simps)
qed

end
