(* ===== verification/Startup.thy ===== *)
theory Startup
  imports Repl
begin

section \<open>Reading the load address (\<^verbatim>\<open>debugger/debugger.c\<close>)\<close>

text \<open>The text of the first mapping of the process and the number that \<open>get_load_address\<close> reads in it.\<close>

lemma nat_text_length: "n < (b + 2) ^ m \<Longrightarrow> 0 < m \<Longrightarrow> length (nat_text b n) \<le> m"
proof (induction b n arbitrary: m rule: nat_text.induct)
  case (1 b n)
  show ?case
  proof (cases "n < b + 2")
    case True
    with 1(3) show ?thesis by (subst nat_text.simps) simp
  next
    case False
    obtain k where k: "m = Suc k" using 1(3) by (cases m) auto
    with 1(2) False have "0 < k" by (cases k) simp_all
    have "n div (b + 2) < (b + 2) ^ k" using 1(2) unfolding k by (simp add: less_mult_imp_div_less mult.commute)
    with 1(1) [OF False] \<open>0 < k\<close> False k show ?thesis by (subst nat_text.simps) simp
  qed
qed

lemma strtoll_address:
  assumes "rest = [] \<or> hd rest = CHR ''-''"
  shows "fst (strtoll 16 (nat_text 14 a @ rest)) = clamp_ll (int a)"
proof -
  let ?n = "nat_text 14 a"
  note p = nat_text_parts [of 14 a, simplified] nat_text_val [of 14 a, simplified]
  have dw: "dropWhile is_space (?n @ rest) = ?n @ rest"
    using p(3) by (cases ?n) auto
  have "\<not> is_digit 16 (CHR ''-'')" by (simp add: is_digit_def digit_of_def)
  then have "takeWhile (is_digit 16) rest = []" using assms by (cases rest) auto
  moreover have "\<forall>c\<in>set ?n. is_digit 16 c" using p(1) by (metis set_takeWhileD)
  ultimately have tw: "takeWhile (is_digit 16) (?n @ rest) = ?n" by simp
  have x: "c \<noteq> CHR ''x'' \<and> c \<noteq> CHR ''X''" if "c \<in> set ?n" for c
  proof -
    from nat_text_digits [of 14 a] that obtain d where "d < 16" "c = digit_char d" by auto
    with digit_char_of [of d] show ?thesis by simp
  qed
  have "(?n @ rest) ! 1 \<noteq> CHR ''x'' \<and> (?n @ rest) ! 1 \<noteq> CHR ''X''" if "3 \<le> length (?n @ rest)"
  proof (cases "1 < length ?n")
    case True
    with x [of "?n ! 1"] show ?thesis by (simp add: nth_append)
  next
    case False
    moreover have "0 < length ?n" by simp
    ultimately have "length ?n = 1" by linarith
    with that assms show ?thesis by (cases rest) (auto simp: nth_append)
  qed
  then have sk: "skip_0x 16 (?n @ rest) = ?n @ rest" by (auto simp: skip_0x_def)
  have h: "hd (?n @ rest) = hd ?n" by simp
  show ?thesis
    using p(4,5) by (simp add: strtoll_def Let_def dw sk tw h p(6) del: hd_append2)
qed

text \<open>
  Claim C37. The load address is that of the first mapping, which the kernel prints in hexadecimal with a dash
  behind it, when it is below \<open>2 ^ 63\<close>: the 16 characters that the debugger asks for hold all digits.
\<close>

theorem load_address_read:
  assumes "popen (''cat /proc/'' @ nat_text 8 pid @ ''/maps | head -c 16'') = Some (take 16 (nat_text 14 a @ CHR ''-'' # rest))"
    and "a < 2 ^ 63" "CHR 0x0A \<notin> set rest"
  shows "get_load_address popen pid = (0, of_nat a)"
proof -
  have "a < (14 + 2) ^ 16" using assms(2) by simp
  from nat_text_length [OF this] have l: "length (nat_text 14 a) \<le> 16" by simp
  define r where "r = take (16 - length (nat_text 14 a)) (CHR ''-'' # rest)"
  have t: "take 16 (nat_text 14 a @ CHR ''-'' # rest) = nat_text 14 a @ r" using l by (simp add: r_def)
  have r: "r = [] \<or> hd r = CHR ''-''" "CHR 0x0A \<notin> set r" "length (nat_text 14 a @ r) \<le> 63"
    using assms(3) l by (auto simp: r_def take_Cons' dest: in_set_takeD)
  have n: "c \<noteq> CHR 0x0A" if "c \<in> set (nat_text 14 a)" for c
  proof -
    from nat_text_digits [of 14 a] that obtain d where "d < 16" "c = digit_char d" by auto
    with digit_char_of [of d] show ?thesis by (auto simp: is_space_def)
  qed
  have "takeWhile (\<lambda>c. c \<noteq> CHR 0x0A) (nat_text 14 a @ r) = nat_text 14 a @ r"
    using n r(2) by (auto simp: takeWhile_eq_all_conv)
  then have "take 63 (takeWhile (\<lambda>c. c \<noteq> CHR 0x0A) (nat_text 14 a @ r)) = nat_text 14 a @ r"
    by (simp only: take_all [OF r(3)])
  with assms(1) t strtoll_address [OF r(1), of a] assms(2) show ?thesis
    by (simp add: get_load_address_def clamp_ll_def)
qed

theorem load_address_read_witness:
  "get_load_address (\<lambda>_. Some ''555555554000-555'') 42 = (0, 0x555555554000)"
proof -
  have "nat_text 14 0x555555554000 = ''555555554000''"
    by (subst nat_text.simps, simp add: digit_char_def)+
  with load_address_read [of "\<lambda>_. Some ''555555554000-555''" 42 "0x555555554000" "''555555555000 r--p''"]
  show ?thesis by simp
qed

end
