(* ===== verification/Session_Text.thy ===== *)
theory Session_Text
  imports Repl_Session Startup
begin

section \<open>A breakpoint from the text of the user\<close>

text \<open>
  The layers together: the line that the user types, the words of its command, the number in it, and
  the breakpoint in the code.
\<close>

lemma scan_word: "\<forall>c\<in>set t. \<not> is_whitespace c \<Longrightarrow> scan_words u t = ([], u @ t)"
  by (induction t arbitrary: u) auto

lemma nat_text_plain:
  assumes "b \<le> 14" "c \<in> set (nat_text b n)"
  shows "\<not> is_whitespace c \<and> c \<noteq> CHR '';'' \<and> c \<noteq> NUL"
proof -
  from nat_text_digits [of b n] assms(2) obtain d where d: "d < b + 2" "c = digit_char d" by blast
  then have "d = 0 \<or> d = 1 \<or> d = 2 \<or> d = 3 \<or> d = 4 \<or> d = 5 \<or> d = 6 \<or> d = 7 \<or> d = 8 \<or> d = 9 \<or> d = 10
      \<or> d = 11 \<or> d = 12 \<or> d = 13 \<or> d = 14 \<or> d = 15" using assms(1) by presburger
  then show ?thesis unfolding d(2) by (elim disjE) (simp_all add: digit_char_def is_whitespace_def)
qed

text \<open>The break command by its words, with an address.\<close>

lemma break_addr_words:
  assumes "holds_tokens b [t, ''addr'', nat_text 14 a]" "a < 2 ^ 63"
    and "t = ''enable'' \<and> act = ENABLE_BREAKPOINT \<or> t = ''disable'' \<and> act = DISABLE_BREAKPOINT"
  shows "handle_breakpoint ret fuel tr hm lib dbg b =
    Value (apply_breakpoint ret tr hm dbg act (of_nat a + load_address dbg))"
proof -
  from take_token_next [OF assms(1)] obtain p1 b1 where
    1: "take_token b = Value (Some p1, Some t, b1)" "holds_tokens b1 [''addr'', nat_text 14 a]" by blast
  from take_token_next [OF 1(2)] obtain p2 b2 where
    2: "take_token b1 = Value (Some p2, Some ''addr'', b2)" "holds_tokens b2 [nat_text 14 a]" by blast
  from take_token_next [OF 2(2)] obtain p3 b3 where
    3: "take_token b2 = Value (Some p3, Some (nat_text 14 a), b3)" by blast
  from strtoll_nat_text(1) [of 14 a] assms(2) have "strtoll 16 (nat_text 14 a) = (int a, [])" by (simp add: clamp_ll_def)
  with 1 2 3 assms(3) show ?thesis by (auto simp: handle_breakpoint_def match_breakpoint_option_def)
qed

lemmas enable_words = break_addr_words [of _ "''enable''" _ ENABLE_BREAKPOINT, OF _ _ disjI1 [OF conjI [OF refl refl]]]
lemmas disable_words = break_addr_words [of _ "''disable''" _ DISABLE_BREAKPOINT, OF _ _ disjI2 [OF conjI [OF refl refl]]]

text \<open>
  Claim C5. Typing \<open>break enable addr <hex>;\<close> sets a breakpoint at that offset from the load address: from a
  process with breakpoints at \<open>S\<close>, the loop of the debugger reads the line, and ends with breakpoints at
  \<open>S\<close> and the new address, provided that its word is code and does not overlap another breakpoint.
\<close>

theorem break_line_sets:
  assumes "process_ok (w_kernel w) mem regs" "hashmap_ok (w_map w)" "bp_inv (w_map w) mem C orig S dbg"
    and "a < 2 ^ 63" "a' = of_nat a + load_address dbg" "a' \<notin> S" "spaced (insert a' S)" "word_in C a'" "cmnd \<noteq> EXIT"
  shows "\<exists>dbg'. line_loop (Suc (Suc fuel)) w [''break enable addr '' @ nat_text 14 a @ '';''] 0 cmnd
      (new_buffer CMD_MAX_SIZE garbage) (new_buffer 0 []) dbg = Value dbg'
    \<and> bp_inv (w_map w) mem C orig (insert a' S) dbg'"
proof -
  let ?c = "''break enable addr '' @ nat_text 14 a"
  let ?ts = "[''enable'', ''addr'', nat_text 14 a]"
  have plain: "CHR '';'' \<notin> set ?c" "NUL \<notin> set ?c" using nat_text_plain [of 14 _ a] by auto
  have s: "split_commands [] (?c @ '';'') = ([?c], [])"
    using split_first [OF plain(1), of "[]" "[]"] by simp
  have words: "text_words ?c = ''break'' # ?ts"
    using scan_word [of "nat_text 14 a" "[]"] nat_text_plain [of 14 _ a] by (simp add: text_words_def is_whitespace_def)
  have "a < (14 + 2) ^ 16" using assms(4) by simp
  from nat_text_length [OF this] have len: "length ?c < CMD_MAX_SIZE" by (simp add: CMD_MAX_SIZE_def)
  have "\<forall>t\<in>set ?ts. t \<noteq> [] \<and> NUL \<notin> set t" using nat_text_plain [of 14 _ a] by auto
  from enable_words [OF word_buffer_holds [OF this] assms(4)]
  have h: "handle_command (Suc fuel) w dbg BREAKPOINT (word_buffer ?ts) =
      Value (apply_breakpoint (w_ret w) (w_kernel w) (w_map w) dbg ENABLE_BREAKPOINT a')" for fuel
    using assms(5) by (simp add: handle_command_def)
  from enable_new [OF assms(1-3,6-8), of "w_ret w"] obtain d1 where
    e: "apply_breakpoint (w_ret w) (w_kernel w) (w_map w) dbg ENABLE_BREAKPOINT a' = (0, d1)"
      "bp_inv (w_map w) mem C orig (insert a' S) d1" by auto
  have n: "CHR 0x00 \<notin> set (?c @ '';'')" using plain by simp
  have texts: "command_texts [] [?c @ '';''] = [?c, '' '']" by (simp only: command_texts.simps s prod.case) simp
  have loop: "line_loop (Suc (Suc fuel)) w [?c @ '';''] 0 cmnd (new_buffer CMD_MAX_SIZE garbage) (new_buffer 0 []) dbg =
      run_lines (Suc (Suc fuel)) w [] [?c @ '';''] 0 cmnd dbg"
    by (rule line_loop_start) (use texts len n in \<open>simp_all add: CMD_MAX_SIZE_def\<close>)
  have "run_commands (Suc (Suc fuel)) w cmnd [''break'' # ?ts] dbg = Value (0, BREAKPOINT, print_verdict 0 d1)"
    using h [of fuel] e(1) by (simp add: match_command_def)
  then have "run_lines (Suc (Suc fuel)) w [] [?c @ '';''] 0 cmnd dbg = Value (print_verdict 0 d1)"
    using assms(9) by (simp only: run_lines.simps s prod.case list.map words) simp
  with loop e(2) show ?thesis by (simp add: bp_inv_def print_verdict_def fprintf_def)
qed


theorem break_line_sets_witness:
  "\<forall>w :: (sim, addr \<Rightarrow> Breakpoint option, 'u, unit, 'd, 'c, 'l, 'a, 'e) world.
     \<exists>dbg'. line_loop 2 (w\<lparr>w_kernel := sim_tracer, w_map := map_hm\<rparr>) [''break enable addr '' @ nat_text 14 0x1010 @ '';''] 0
         INVALID_CMD (new_buffer CMD_MAX_SIZE []) (new_buffer 0 []) (sim_dbg (\<lambda>_. None) ()) = Value dbg'
       \<and> sim_mem (tracee dbg') 0x1010 = 0xcc \<and> sim_mem (tracee dbg') 0x1011 = 0x90"
proof (intro allI)
  fix w :: "(sim, addr \<Rightarrow> Breakpoint option, 'u, unit, 'd, 'c, 'l, 'a, 'e) world"
  let ?w = "w\<lparr>w_kernel := sim_tracer, w_map := map_hm\<rparr>"
  have hyp: "process_ok (w_kernel ?w) sim_mem sim_regs" "hashmap_ok (w_map ?w)"
    "bp_inv (w_map ?w) sim_mem UNIV (\<lambda>_. 0x90) {} (sim_dbg (\<lambda>_. None) ())"
    using sim_process map_hm_ok sim_bp_inv by simp_all
  have a: "(0x1010 :: addr) = of_nat 0x1010 + load_address (sim_dbg (\<lambda>_. None) ())" by (simp add: sim_dbg_def)
  have sp: "spaced (insert 0x1010 {})" "word_in UNIV 0x1010" by (simp_all add: spaced_def word_in_def)
  have bound: "(0x1010 :: nat) < 2 ^ 63" by simp
  have two: "Suc (Suc 0) = 2" by simp
  from break_line_sets [OF hyp bound a _ sp, where fuel = 0 and cmnd = INVALID_CMD and garbage = "[]"] obtain dbg' where
    "line_loop 2 ?w [''break enable addr '' @ nat_text 14 0x1010 @ '';''] 0 INVALID_CMD (new_buffer CMD_MAX_SIZE [])
       (new_buffer 0 []) (sim_dbg (\<lambda>_. None) ()) = Value dbg'"
    "bp_inv map_hm sim_mem UNIV (\<lambda>_. 0x90) {0x1010} dbg'" by (auto simp: two simp del: line_loop.simps append_Cons)
  then show "\<exists>dbg'. line_loop 2 ?w [''break enable addr '' @ nat_text 14 0x1010 @ '';''] 0 INVALID_CMD
         (new_buffer CMD_MAX_SIZE []) (new_buffer 0 []) (sim_dbg (\<lambda>_. None) ()) = Value dbg'
       \<and> sim_mem (tracee dbg') 0x1010 = 0xcc \<and> sim_mem (tracee dbg') 0x1011 = 0x90"
    by (auto simp: bp_inv_mem simp del: line_loop.simps)
qed

end
