(* ===== verification/Sessions.thy ===== *)
theory Sessions
  imports Stepping
begin

section \<open>Sessions: the breakpoints over a sequence of commands\<close>

text \<open>
  What the running commands do to the breakpoint invariant: steps, \<open>finish\<close>, \<open>next\<close> and \<open>continue\<close>,
  alone and composed with the break and register commands into sessions.
\<close>

subsection \<open>Steps\<close>

lemma step_once_keeps:
  assumes P: "process_ok tr mem regs" and R: "runs_ok tr mem C" and H: "hashmap_ok hm"
    and inv: "bp_inv hm mem C orig S dbg" "spaced S" and run: "step_once pc0 ret tr hm dbg = (0, dbg')"
  shows "bp_inv hm mem C orig S dbg' \<and> load_address dbg' = load_address dbg"
proof -
  have i: "code_patched mem C orig S (tracee dbg)" "holds_bps hm orig S (breakpoints dbg)" "S \<subseteq> S" "spaced S"
    using inv by (simp_all add: bp_inv_parts)
  have "snd (get_reg_value tr dbg REG_rip) = Some (rip (regs (tracee dbg)))"
    by (simp add: get_reg_value_def get_regs_struct_def get_register_rip process_okD(6) [OF P])
  then consider "step_over_breakpoint ret tr hm dbg = (0, dbg')"
    | d1 where "single_step tr dbg = (0, d1)" "wait_and_handle_signal tr d1 = (0, dbg')"
    using run by (auto simp: step_once_def get_breakpoint_eq Let_def case_prod_beta prod_eq_iff split: if_splits)
  then show ?thesis
  proof cases
    case 1
    from step_over_keeps [OF P R H i 1] i(2) show ?thesis by (simp add: bp_inv_parts same_store_def)
  next
    case 2
    from resume_keeps(1) [OF R 2(1)] wait_keeps [OF P R 2(2)]
    have "same_store dbg dbg'" "\<And>x. x \<in> C \<Longrightarrow> mem (tracee dbg') x = mem (tracee dbg) x"
      by (auto simp: same_store_def)
    with patched_cong [OF i(1), of "tracee dbg'"] i(2) show ?thesis by (simp add: bp_inv_parts same_store_def)
  qed
qed

text \<open>The number of steps as a plain recursion, until the first one that fails.\<close>

primrec run_steps :: "nat \<Rightarrow> UWORD \<Rightarrow> C_int \<Rightarrow> 'k tracer \<Rightarrow> 'm hashmap \<Rightarrow> ('k, 'm, 'h, 'z) Debugger_scheme
    \<Rightarrow> C_int \<times> ('k, 'm, 'h, 'z) Debugger_scheme" where
  "run_steps 0 pc0 ret tr hm dbg = (0, dbg)"
| "run_steps (Suc n) pc0 ret tr hm dbg =
    (case step_once pc0 ret tr hm dbg of (res, dbg) \<Rightarrow>
       if res \<noteq> 0 then (res, dbg) else run_steps n pc0 ret tr hm dbg)"

lemma step_loop_run:
  "unat cnt < fuel \<Longrightarrow> step_loop fuel pc0 ret tr hm cnt dbg = Value (run_steps (unat cnt) pc0 ret tr hm dbg)"
proof (induction fuel arbitrary: cnt dbg)
  case (Suc fuel)
  show ?case
  proof (cases "cnt = 0")
    case False
    then have n: "unat cnt = Suc (unat (cnt - 1))" using unat_minus_one [of cnt] unat_gt_0 [of cnt]
      by linarith
    then have "unat (cnt - 1) < fuel" using Suc.prems by simp
    note IH = Suc.IH [OF this]
    show ?thesis unfolding n by (simp only: step_loop.simps run_steps.simps False if_False IH split: prod.split) simp
  qed simp
qed simp

lemma step_loop_success: "step_loop fuel pc0 ret tr hm cnt dbg = Value (0, dbg') \<Longrightarrow> run_steps (unat cnt) pc0 ret tr hm dbg = (0, dbg')"
proof (induction fuel arbitrary: cnt dbg)
  case (Suc fuel)
  show ?case
  proof (cases "cnt = 0")
    case False
    then have n: "unat cnt = Suc (unat (cnt - 1))" using unat_minus_one [of cnt] unat_gt_0 [of cnt]
      by linarith
    obtain r d where d: "step_once pc0 ret tr hm dbg = (r, d)" by (rule prod.exhaust)
    with Suc.prems False have "r = 0" "step_loop fuel pc0 ret tr hm (cnt - 1) d = Value (0, dbg')" by (auto split: if_splits)
    with Suc.IH d show ?thesis by (simp add: n)
  qed (use Suc.prems in simp)
qed simp

lemma run_steps_keeps:
  assumes "process_ok tr mem regs" "runs_ok tr mem C" "hashmap_ok hm" "spaced S"
    and "bp_inv hm mem C orig S dbg" "run_steps n pc0 ret tr hm dbg = (0, dbg')"
  shows "bp_inv hm mem C orig S dbg' \<and> load_address dbg' = load_address dbg"
  using assms(5,6)
proof (induction n arbitrary: dbg)
  case (Suc n)
  obtain r d where 1: "step_once pc0 ret tr hm dbg = (r, d)" by (rule prod.exhaust)
  with Suc.prems(2) have "r = 0" "run_steps n pc0 ret tr hm d = (0, dbg')" by (auto split: if_splits)
  with step_once_keeps [OF assms(1-3) Suc.prems(1) assms(4)] 1 Suc.IH [of d] show ?case by metis
qed simp

text \<open>
  Claim C23. The loop of the step command ends for every number, given one more unit of fuel than steps, and
  performs that many steps, stopping at the first that fails; a negative number is taken modulo
  $2^{64}$, so that \<open>step -1\<close> asks for $2^{64} - 1$ steps.
\<close>

theorem step_loop_steps:
  assumes "unat (word_of_int c :: WORD) < fuel" "- (2 ^ 63) \<le> c" "c < 2 ^ 63"
  shows "step_loop fuel pc0 ret tr hm (word_of_int c) dbg =
    Value (run_steps (nat (if c < 0 then 2 ^ 64 + c else c)) pc0 ret tr hm dbg)"
proof -
  have "uint (word_of_int c :: WORD) = c mod 2 ^ 64" by (simp add: uint_word_of_int)
  also have "\<dots> = (if c < 0 then 2 ^ 64 + c else c)"
  proof (cases "c < 0")
    case True
    have "c mod 2 ^ 64 = (c + 2 ^ 64) mod 2 ^ 64" by (simp only: mod_add_self2)
    also have "\<dots> = c + 2 ^ 64" using assms True by (intro mod_pos_pos_trivial) simp_all
    finally show ?thesis using True by (simp only: if_True add.commute)
  next
    case False
    with assms(3) show ?thesis by (simp only: if_False) (intro mod_pos_pos_trivial; simp)
  qed
  finally have "unat (word_of_int c :: WORD) = nat (if c < 0 then 2 ^ 64 + c else c)"
    by (metis unat_eq_nat_uint)
  with step_loop_run [OF assms(1), of pc0 ret tr hm dbg] show ?thesis by (simp only:)
qed

theorem step_loop_steps_witness:
  "step_loop 3 0 7 sim_tracer map_hm 2 (sim_dbg (\<lambda>_. None) ()) =
     Value (run_steps 2 0 7 sim_tracer map_hm (sim_dbg (\<lambda>_. None) ()))"
  using step_loop_steps [of 2 3 0 7 sim_tracer map_hm "sim_dbg (\<lambda>_. None) ()"] by simp

subsection \<open>Finish\<close>

text \<open>Writing back a word that was read when the traps of \<open>S\<close> were in the code.\<close>

lemma restore:
  assumes "process_ok tr mem regs" "code_patched mem C orig (insert (mem_addr bp) S) (tracee dbg)"
    and "\<forall>j<8. byte_of (saved_data bp) j = (if mem_addr bp + of_nat j \<in> S then 0xcc else orig (mem_addr bp + of_nat j))"
  shows "\<exists>k. disable_breakpoint tr dbg bp = (0, bp\<lparr>enabled := False\<rparr>, dbg\<lparr>tracee := k\<rparr>)
    \<and> code_patched mem C orig S k \<and> regs k = regs (tracee dbg)"
proof -
  let ?a = "mem_addr bp"
  from disable_run [OF assms(1), of dbg bp] obtain k where
    k: "disable_breakpoint tr dbg bp = (0, bp\<lparr>enabled := False\<rparr>, dbg\<lparr>tracee := k\<rparr>)" "regs k = regs (tracee dbg)"
      "\<And>x. mem k x = (if x - ?a < 8 then byte_of (saved_data bp) (unat (x - ?a)) else mem (tracee dbg) x)"
    by auto
  have "mem k x = (if x \<in> S then 0xcc else orig x)" if "x \<in> C" for x
  proof (cases "x - ?a < 8")
    case True
    from near_offset [OF True] assms(3) have
      "byte_of (saved_data bp) (unat (x - ?a)) = (if x \<in> S then 0xcc else orig x)" by metis
    with True k(3) [of x] show ?thesis by simp
  next
    case False
    then have "x \<noteq> ?a" by auto
    with False k(3) [of x] assms(2) that show ?thesis by (simp add: code_patched_def)
  qed
  with k(1,2) show ?thesis by (auto simp: code_patched_def)
qed

text \<open>The return address that \<open>step_out\<close> reads below the stack pointer of the caller's frame.\<close>

definition caller_return :: "'k tracer \<Rightarrow> ('k, 'u) unwinder \<Rightarrow> 'k \<Rightarrow> UWORD" where
  "caller_return tr uw k = fst (tr_peek tr k
     (snd (unw_get_sp uw k (snd (unw_step uw k (snd (unw_init_remote uw k))))) - 8))"

text \<open>What follows the reading of the return address in \<open>step_out\<close>.\<close>

definition run_to :: "C_int \<Rightarrow> 'k tracer \<Rightarrow> 'm hashmap \<Rightarrow> UWORD \<Rightarrow> ('k, 'm, 'h, 'z) Debugger_scheme
    \<Rightarrow> C_int \<times> ('k, 'm, 'h, 'z) Debugger_scheme" where
  "run_to ret tr hm a dbg =
    (case enable_breakpoint tr dbg (snd (get_breakpoint_at_addr ret hm dbg a)) of (res, bp, dbg) \<Rightarrow>
       if res \<noteq> 0 then (res, dbg)
       else (case handle_continue ret tr hm dbg of (res, dbg) \<Rightarrow>
         if res \<noteq> 0 then (res, dbg)
         else (case disable_breakpoint tr dbg bp of (res, bp, dbg) \<Rightarrow>
           if res \<noteq> 0 then (res, dbg) else (0, dbg))))"

lemma step_out_run:
  assumes P: "process_ok tr mem regs" and run: "step_out ret tr uw hm dbg = (0, dbg')"
  shows "dbg' = dbg \<or> run_to ret tr hm (caller_return tr uw (tracee dbg)) dbg = (0, dbg')"
  using run process_okD(1) [OF P]
  by (auto simp: step_out_def run_to_def handle_continue_def caller_return_def ptrace_peek_data_def
      get_breakpoint_eq case_prod_beta Let_def split: if_splits)

lemma continue_keeps:
  assumes P: "process_ok tr mem regs" and R: "runs_ok tr mem C" and H: "hashmap_ok hm"
    and inv: "code_patched mem C orig M (tracee dbg)" "holds_bps hm orig S (breakpoints dbg)" "S \<subseteq> M" "spaced M"
    and run: "handle_continue ret tr hm dbg = (0, dbg')"
  shows "same_store dbg dbg' \<and> code_patched mem C orig M (tracee dbg')"
proof -
  from run obtain d1 d2 where
    1: "step_over_breakpoint ret tr hm dbg = (0, d1)" and 2: "debug_continue tr d1 = (0, d2)"
    and 3: "wait_and_handle_signal tr d2 = (0, dbg')"
    by (auto simp: handle_continue_def case_prod_beta prod_eq_iff split: if_splits)
  note k1 = step_over_keeps [OF P R H inv 1] and k2 = resume_keeps(2) [OF R 2] and k3 = wait_keeps [OF P R 3]
  from k2 k3 have m: "\<And>x. x \<in> C \<Longrightarrow> mem (tracee dbg') x = mem (tracee d1) x" by simp
  have "code_patched mem C orig M (tracee dbg')" by (rule patched_cong [OF conjunct2 [OF k1] m])
  with k1 k2 k3 show ?thesis by (auto simp: same_store_def)
qed

lemma run_to_keeps:
  assumes P: "process_ok tr mem regs" and R: "runs_ok tr mem C" and H: "hashmap_ok hm"
    and inv: "bp_inv hm mem C orig S dbg" "spaced (insert a S)" "word_in C a"
    and run: "run_to ret tr hm a dbg = (0, dbg')"
  shows "bp_inv hm mem C orig S dbg' \<and> load_address dbg' = load_address dbg"
proof -
  define bp where "bp = snd (get_breakpoint_at_addr ret hm dbg a)"
  have p: "code_patched mem C orig S (tracee dbg)" and h: "holds_bps hm orig S (breakpoints dbg)"
    using inv(1) by (simp_all add: bp_inv_parts)
  have a: "mem_addr bp = a"
  proof (cases "a \<in> S")
    case True from bp_inv_get(2) [OF inv(1) this] show ?thesis by (auto simp: bp_def get_breakpoint_eq)
  next
    case False from bp_inv_get(1) [OF inv(1) this] show ?thesis by (auto simp: bp_def get_breakpoint_eq)
  qed
  from arm [OF P p, of bp] obtain k d where
    e: "enable_breakpoint tr dbg bp = (0, bp\<lparr>saved_data := d, enabled := True\<rparr>, dbg\<lparr>tracee := k\<rparr>)"
      "\<forall>j<8. byte_of d j = mem (tracee dbg) (a + of_nat j)" "code_patched mem C orig (insert a S) k"
    using a by auto
  obtain r d1 where c: "handle_continue ret tr hm (dbg\<lparr>tracee := k\<rparr>) = (r, d1)" by (rule prod.exhaust)
  with run e(1) have "r = 0" by (simp add: run_to_def bp_def [symmetric] split: if_splits)
  with c have c: "handle_continue ret tr hm (dbg\<lparr>tracee := k\<rparr>) = (0, d1)" by simp
  have pre: "code_patched mem C orig (insert a S) (tracee (dbg\<lparr>tracee := k\<rparr>))"
      "holds_bps hm orig S (breakpoints (dbg\<lparr>tracee := k\<rparr>))" "S \<subseteq> insert a S" using e(3) h by auto
  from continue_keeps [OF P R H pre inv(2) c]
  have d1: "same_store dbg d1" "code_patched mem C orig (insert a S) (tracee d1)" by (simp_all add: same_store_def)
  let ?bp = "bp\<lparr>saved_data := d, enabled := True\<rparr>"
  have d: "\<forall>j<8. byte_of (saved_data ?bp) j = (if mem_addr ?bp + of_nat j \<in> S then 0xcc else orig (mem_addr ?bp + of_nat j))"
    using e(2) inv(3) p by (simp add: a word_in_def code_patched_def)
  have "code_patched mem C orig (insert (mem_addr ?bp) S) (tracee d1)" using d1(2) a by simp
  from restore [OF P this d] obtain k' where
    "disable_breakpoint tr d1 ?bp = (0, ?bp\<lparr>enabled := False\<rparr>, d1\<lparr>tracee := k'\<rparr>)" "code_patched mem C orig S k'"
    by auto
  then show ?thesis using run e(1) c d1(1) h
    by (auto simp: run_to_def bp_def [symmetric] bp_inv_parts same_store_def)
qed

lemma step_out_keeps:
  assumes P: "process_ok tr mem regs" and R: "runs_ok tr mem C" and H: "hashmap_ok hm"
    and inv: "bp_inv hm mem C orig S dbg" and a: "a = caller_return tr uw (tracee dbg)"
    and S: "spaced (insert a S)" "word_in C a"
    and run: "step_out ret tr uw hm dbg = (0, dbg')"
  shows "bp_inv hm mem C orig S dbg' \<and> load_address dbg' = load_address dbg"
  using step_out_run [OF P run] run_to_keeps [OF P R H inv S, of ret dbg'] inv a by auto

subsection \<open>Next\<close>

definition planted :: "('h, 'd, 'c, 'l, 'y) dwarf_lib_scheme \<Rightarrow> UWORD \<Rightarrow> WORD \<Rightarrow> 'l list \<Rightarrow> addr set" where
  "planted lib high_pc base rows =
     (\<lambda>l. snd (lineaddr lib l) + base) ` set (takeWhile (\<lambda>l. snd (lineaddr lib l) < high_pc) rows)"

lemma spaced_subset: "spaced T \<Longrightarrow> S \<subseteq> T \<Longrightarrow> spaced S"
  unfolding spaced_def by blast

lemma plant_loop_keeps:
  assumes P: "process_ok tr mem regs" and H: "hashmap_ok hm"
  shows "bp_inv hm mem C orig S dbg \<Longrightarrow> spaced (S \<union> planted lib high_pc (load_address dbg) rows) \<Longrightarrow>
    (\<And>a. a \<in> planted lib high_pc (load_address dbg) rows \<Longrightarrow> word_in C a) \<Longrightarrow>
    (\<exists>l\<in>set rows. fst (lineaddr lib l) \<noteq> DW_DLV_OK) \<and> fst (plant_loop ret tr hm lib high_pc rows dbg) = Inl 1
    \<or> (\<exists>dbg'. plant_loop ret tr hm lib high_pc rows dbg = (Inr (), dbg')
      \<and> bp_inv hm mem C orig (S \<union> planted lib high_pc (load_address dbg) rows) dbg'
      \<and> load_address dbg' = load_address dbg \<and> regs (tracee dbg') = regs (tracee dbg))"
proof (induction rows arbitrary: S dbg)
  case (Cons l rows)
  let ?base = "load_address dbg"
  let ?a = "snd (lineaddr lib l) + ?base"
  obtain c v where cv: "lineaddr lib l = (c, v)" by (rule prod.exhaust)
  consider (error) "c \<noteq> DW_DLV_OK" | (stop) "c = DW_DLV_OK" "\<not> v < high_pc" | (row) "c = DW_DLV_OK" "v < high_pc" by blast
  then show ?case
  proof cases
    case error
    with cv show ?thesis by auto
  next
    case stop
    with cv Cons.prems(1) show ?thesis by (auto simp: planted_def)
  next
    case row
    note l = cv [unfolded row(1)] and True = row(2)
    then have T: "planted lib high_pc ?base (l # rows) = insert ?a (planted lib high_pc ?base rows)"
      by (simp add: planted_def l)
    have step: "\<exists>d. plant_loop ret tr hm lib high_pc (l # rows) dbg = plant_loop ret tr hm lib high_pc rows d
        \<and> bp_inv hm mem C orig (insert ?a S) d \<and> load_address d = ?base \<and> regs (tracee d) = regs (tracee dbg)"
    proof (cases "?a \<in> S")
      case in_S: True
      from bp_inv_get(2) [OF Cons.prems(1) in_S] have
        "plant_loop ret tr hm lib high_pc (l # rows) dbg = plant_loop ret tr hm lib high_pc rows dbg"
        using l True by (auto simp: get_breakpoint_eq Let_def)
      with Cons.prems(1) in_S show ?thesis by (metis insert_absorb)
    next
      case new: False
      have sp: "spaced (insert ?a S)" using Cons.prems(2) T by (auto intro: spaced_subset)
      have w: "word_in C ?a" using Cons.prems(3) T by blast
      let ?b = "(make_breakpoint ?a)\<lparr>temporary_enable := True\<rparr>"
      have b: "mem_addr ?b = ?a" by simp
      from enable_save [OF P H Cons.prems(1) new sp w b] obtain bp' dbg1 dbg2 where
        "enable_breakpoint tr dbg ?b = (0, bp', dbg1)" "save_breakpoint hm dbg1 bp' = (0, dbg2)"
        "bp_inv hm mem C orig (insert ?a S) dbg2" "regs (tracee dbg2) = regs (tracee dbg)"
        "load_address dbg2 = load_address dbg" by blast
      moreover have "\<not> high_pc \<le> v" using True by simp
      ultimately show ?thesis using bp_inv_get(1) [OF Cons.prems(1) new] l
        by (intro exI [of _ dbg2]) (simp add: get_breakpoint_eq Let_def)
    qed
    then obtain d where d: "plant_loop ret tr hm lib high_pc (l # rows) dbg = plant_loop ret tr hm lib high_pc rows d"
        "bp_inv hm mem C orig (insert ?a S) d" "load_address d = ?base" "regs (tracee d) = regs (tracee dbg)" by blast
    have U: "insert ?a S \<union> planted lib high_pc (load_address d) rows = S \<union> planted lib high_pc ?base (l # rows)"
      unfolding T d(3) by auto
    from Cons.IH [OF d(2), unfolded U] Cons.prems T d show ?thesis by auto
  qed
qed (simp add: planted_def)

text \<open>The second loop never changes anything: the look-up has dropped the temporary mark.\<close>

lemma cleanup_loop_idle: "\<exists>r. cleanup_loop ret tr hm lib high_pc rows dbg = (r, dbg)"
proof (induction rows)
  case (Cons l rows)
  have "\<not> temporary_enable (snd (get_breakpoint_at_addr ret hm dbg a))" for a
    by (auto simp: get_breakpoint_eq split: option.split)
  with Cons show ?case by (auto simp: get_breakpoint_eq Let_def split: prod.split option.split)
qed simp

lemma next_run_keeps:
  assumes P: "process_ok tr mem regs" and R: "runs_ok tr mem C" and H: "hashmap_ok hm"
    and inv: "bp_inv hm mem C orig S dbg"
    and T: "T = planted lib high_pc (load_address dbg) rows"
    and a: "a = caller_return tr uw (tracee (snd (plant_loop ret tr hm lib high_pc rows dbg)))"
    and S: "spaced (insert a (S \<union> T))" "\<forall>x\<in>insert a T. word_in C x"
    and run: "next_run ret tr uw hm lib high_pc rows dbg = (0, dbg')"
  shows "bp_inv hm mem C orig (S \<union> T) dbg' \<and> load_address dbg' = load_address dbg"
proof -
  have sp: "spaced (S \<union> T)" using S(1) by (rule spaced_subset) blast
  have "fst (plant_loop ret tr hm lib high_pc rows dbg) \<noteq> Inl 1" using run by (auto simp: next_run_def split: prod.splits)
  with plant_loop_keeps [OF P H inv, where rows = rows and lib = lib and high_pc = high_pc and ret = ret] sp S(2) obtain d where
    d: "plant_loop ret tr hm lib high_pc rows dbg = (Inr (), d)" "bp_inv hm mem C orig (S \<union> T) d"
      "load_address d = load_address dbg" unfolding T by auto
  obtain r1 d1 where 1: "step_out ret tr uw hm d = (r1, d1)" by (rule prod.exhaust)
  obtain r2 where 2: "cleanup_loop ret tr hm lib high_pc rows d1 = (r2, d1)" using cleanup_loop_idle by metis
  from run d(1) 1 2 have r: "r1 = 0" "d1 = dbg'" by (auto simp: next_run_def split: if_splits sum.splits)
  have "a = caller_return tr uw (tracee d)" using a d(1) by simp
  from step_out_keeps [OF P R H d(2) this S(1) _ 1 [unfolded r]] S(2) d(3) show ?thesis by simp
qed

text \<open>The look-up changes nothing but the position of the unit iterator.\<close>

definition ends_in :: "('s \<Rightarrow> bool) \<Rightarrow> ('a \<times> 's) run \<Rightarrow> bool" where
  "ends_in Q r \<longleftrightarrow> (\<forall>x s. r = Value (x, s) \<longrightarrow> Q s)"

lemma ends_in_simps [simp]: "ends_in Q (Value (x, s)) = Q s" "ends_in Q Crash_run" "ends_in Q NoFuel"
  by (simp_all add: ends_in_def)

lemma ends_in_bind: "(\<And>x. r = Value x \<Longrightarrow> ends_in Q (k x)) \<Longrightarrow> ends_in Q (run_bind r k)"
  by (cases r) simp_all

lemma next_lookup_state:
  "next_lookup fuel tr lib dbg = Value (r, dbg1) \<Longrightarrow> \<exists>h. dbg1 = dbg\<lparr>dwarf_dbg := h\<rparr>"
proof -
  let ?Q = "\<lambda>dbg1. \<exists>h. dbg1 = dbg\<lparr>dwarf_dbg := h\<rparr>"
  have "dbg = dbg\<lparr>dwarf_dbg := dwarf_dbg dbg\<rparr>" by simp
  then have Q: "?Q dbg" "?Q (dbg\<lparr>dwarf_dbg := h\<rparr>)" for h by metis blast
  have "ends_in ?Q (next_lookup fuel tr lib dbg)"
    unfolding next_lookup_def Let_def
    by (auto simp: Q intro!: ends_in_bind split: prod.split option.split)
  then show "next_lookup fuel tr lib dbg = Value (r, dbg1) \<Longrightarrow> \<exists>h. dbg1 = dbg\<lparr>dwarf_dbg := h\<rparr>"
    by (simp add: ends_in_def)
qed

text \<open>
  Claim C21. The traps that \<open>next\<close> plants at the rows of the current subprogram stay: after a successful \<open>next\<close>
  the map holds the breakpoints of all these rows, enabled, with their traps in the code, in
  addition to the ones of before. The second loop finds none of them temporary.
\<close>

theorem next_leaves_breakpoints:
  assumes "process_ok tr mem regs" "runs_ok tr mem C" "hashmap_ok hm" "bp_inv hm mem C orig S dbg"
    and "next_lookup fuel tr lib dbg = Value (Inr (high_pc, rows), dbg1)"
    and "T = planted lib high_pc (load_address dbg) rows"
    and "a = caller_return tr uw (tracee (snd (plant_loop ret tr hm lib high_pc rows dbg1)))"
    and "spaced (insert a (S \<union> T))" "\<forall>x\<in>insert a T. word_in C x"
    and "step_in ret fuel tr uw hm lib dbg = Value (0, dbg')"
  shows "bp_inv hm mem C orig (S \<union> T) dbg'"
proof -
  from next_lookup_state [OF assms(5)] assms(4) have
    "bp_inv hm mem C orig S dbg1" "load_address dbg1 = load_address dbg" by (auto simp: bp_inv_def)
  then have i: "bp_inv hm mem C orig S dbg1" "T = planted lib high_pc (load_address dbg1) rows" using assms(6) by simp_all
  have "next_run ret tr uw hm lib high_pc rows dbg1 = (0, dbg')"
    using assms(5,10) by (simp add: step_in_def)
  from next_run_keeps [OF assms(1-3) i assms(7-9) this] show ?thesis by (rule conjunct1)
qed

definition next_unit :: die_tree where
  "next_unit = DIE \<lparr>i_tag = 0x11, i_name = Some ''b.c'', i_range = Some (0x1000, 0x1100), i_dir = Some ''/src'',
     i_lines = [\<lparr>row_addr = 0x1000, row_no = 3, row_src = ''/src/b.c''\<rparr>, \<lparr>row_addr = 0x1010, row_no = 4, row_src = ''/src/b.c''\<rparr>,
       \<lparr>row_addr = 0x1020, row_no = 6, row_src = ''/src/b.c''\<rparr>]\<rparr> [mk_die DW_TAG_subprogram ''f'' 0x1000 0x1018 []]"

definition next_dbg :: "(sim, addr \<Rightarrow> Breakpoint option, die_tree list \<times> die_tree list) Debugger" where
  "next_dbg = sim_dbg (\<lambda>_. None) ([next_unit], [next_unit])"

lemma next_dbg_lookup:
  "next_lookup (Suc (Suc (Suc (Suc 0)))) sim_tracer forest_lib next_dbg = Value (Inr (0x1018, i_lines (d_info next_unit)), next_dbg)"
proof -
  have "get_reg_value sim_tracer next_dbg REG_rip = (0, Some 0x1000)"
    by (simp add: get_reg_value_def get_regs_struct_def get_register_rip sim_tracer_def next_dbg_def sim_dbg_def sim_start_def)
  moreover have "get_cu_from_addr (Suc (Suc (Suc (Suc 0)))) forest_lib 0x1000 (dwarf_dbg next_dbg) =
      Value (DW_DLV_NO_ENTRY, Some (next_unit, []), dwarf_dbg next_dbg)"
    by (simp add: get_cu_from_addr_def next_dbg_def sim_dbg_def next_unit_def forest_lib_def die_contains_addr_offset_def
        get_low_high_pc_from_die_def on_die_def)
  moreover have "get_sub_prog_die_in_die_from_addr (Suc (Suc (Suc (Suc 0)))) forest_lib 0x1000 (Some (next_unit, [])) None =
      Value (DW_DLV_NO_ENTRY, Some (mk_die DW_TAG_subprogram ''f'' 0x1000 0x1018 [], []))"
    by (simp add: next_unit_def mk_die_def forest_lib_def die_contains_addr_offset_def handle_def
        get_low_high_pc_from_die_def on_die_def)
  moreover have "load_address next_dbg = 0" "next_dbg\<lparr>dwarf_dbg := dwarf_dbg next_dbg\<rparr> = next_dbg"
    by (simp_all add: next_dbg_def sim_dbg_def)
  moreover obtain it where it: "get_line_iterator forest_lib (Some (next_unit, [])) = (DW_DLV_OK, it)"
      "dw_lines (attach_cu_die it (Some (next_unit, []))) = i_lines (d_info next_unit)"
    by (simp add: get_line_iterator_def get_line_context_def get_src_lines_from_context_def forest_lib_def on_die_def
        next_unit_def attach_cu_die_def)
  moreover have "search_addr_in_lines forest_lib (attach_cu_die it (Some (next_unit, []))) 0x1000 = (DW_DLV_OK, Some 0)"
  proof -
    have "search_loop forest_lib (i_lines (d_info next_unit)) 0x1000 0 2 = (DW_DLV_OK, 0)"
      by (simp add: search_loop.simps next_unit_def forest_lib_def Let_def)
    moreover have "line_count (attach_cu_die it (Some (next_unit, []))) = 3"
      unfolding line_count_def it(2) by (simp add: next_unit_def)
    ultimately show ?thesis by (simp add: search_addr_in_lines_def it(2))
  qed
  moreover have "get_low_high_pc_from_die forest_lib (Some (mk_die DW_TAG_subprogram ''f'' 0x1000 0x1018 [], [])) =
      (DW_DLV_OK, 0x1000, Some 0x1018)"
    by (simp add: get_low_high_pc_from_die_def forest_lib_def on_die_def)
  ultimately show ?thesis
    by (simp only: next_lookup_def prod.case option.case run_bind.simps Let_def diff_zero) simp
qed

lemma sim_codes:
  "fst (wait_and_handle_signal sim_tracer dbg) = 0" "fst (single_step sim_tracer dbg) = 0"
  "fst (debug_continue sim_tracer dbg) = 0" "fst (enable_breakpoint sim_tracer dbg bp) = 0"
  "fst (disable_breakpoint sim_tracer dbg bp) = 0" "fst (get_regs_struct sim_tracer dbg) = 0"
  "fst (ptrace_peek_data sim_tracer dbg a) = 0"
  by (simp_all add: wait_and_handle_signal_def wait_for_signal_def get_siginfo_def handle_sigtrap_def
      get_regs_struct_def set_regs_struct_def get_register_rip debugee_terminated_def WIFEXITED_def WIFSIGNALED_def
      single_step_def debug_continue_def enable_breakpoint_def disable_breakpoint_def ptrace_peek_data_def
      sim_tracer_def Let_def)

lemma sim_step_over_code: "fst (step_over_breakpoint ret sim_tracer hm dbg) = 0"
  by (simp add: step_over_breakpoint_def sim_codes get_register_rip get_breakpoint_eq case_prod_beta)

lemma sim_step_out_code: "fst (step_out ret sim_tracer sim_unwinder hm dbg) = 0"
  by (simp add: step_out_def sim_codes sim_step_over_code get_breakpoint_eq case_prod_beta sim_unwinder_def Let_def)

theorem next_leaves_breakpoints_witness:
  "\<exists>dbg'. step_in 7 (Suc (Suc (Suc (Suc 0)))) sim_tracer sim_unwinder map_hm forest_lib next_dbg = Value (0, dbg')
     \<and> sim_mem (tracee next_dbg) 0x1010 = 0x90 \<and> sim_mem (tracee dbg') 0x1010 = 0xcc"
proof -
  let ?rows = "i_lines (d_info next_unit)"
  let ?T = "planted forest_lib 0x1018 (load_address next_dbg) ?rows"
  have T: "?T = {0x1000, 0x1010}" by (simp add: planted_def next_unit_def forest_lib_def next_dbg_def sim_dbg_def)
  have inv: "bp_inv map_hm sim_mem UNIV (\<lambda>_. 0x90) {} next_dbg"
    using sim_bp_inv by (simp add: bp_inv_def next_dbg_def sim_dbg_def)
  have ok: "\<forall>l\<in>set ?rows. fst (lineaddr forest_lib l) = DW_DLV_OK" by (simp add: forest_lib_def)
  have "spaced ({} \<union> ?T)" by (simp add: T spaced_def)
  with plant_loop_keeps [OF sim_process map_hm_ok inv, where rows = ?rows and lib = forest_lib and high_pc = "0x1018" and ret = 7] ok
  obtain d where
    d: "plant_loop 7 sim_tracer map_hm forest_lib 0x1018 ?rows next_dbg = (Inr (), d)"
      "bp_inv map_hm sim_mem UNIV (\<lambda>_. 0x90) ?T d" by (auto simp: word_in_def)
  have a: "caller_return sim_tracer sim_unwinder (tracee d) = 0x9090909090909090"
    using bp_inv_mem [OF d(2)] by (simp add: caller_return_def sim_unwinder_def sim_tracer_def bytes_word_def T)
  obtain d1 where 1: "step_out 7 sim_tracer sim_unwinder map_hm d = (0, d1)"
    using sim_step_out_code by (metis prod.collapse)
  obtain r where 2: "cleanup_loop 7 sim_tracer map_hm forest_lib 0x1018 ?rows d1 = (r, d1)" using cleanup_loop_idle by metis
  have "\<exists>u. r = Inr u"
    using 2 by (auto simp: next_unit_def forest_lib_def get_breakpoint_eq Let_def split: if_splits)
  then have run: "step_in 7 (Suc (Suc (Suc (Suc 0)))) sim_tracer sim_unwinder map_hm forest_lib next_dbg = Value (0, d1)"
    using d(1) 1 2 by (auto simp: step_in_def next_dbg_lookup next_run_def)
  have sp: "spaced (insert 0x9090909090909090 ({} \<union> ?T))" "\<forall>x\<in>insert 0x9090909090909090 ?T. word_in UNIV x"
    by (simp_all add: T spaced_def word_in_def)
  have ra: "0x9090909090909090 = caller_return sim_tracer sim_unwinder
      (tracee (snd (plant_loop 7 sim_tracer map_hm forest_lib 0x1018 ?rows next_dbg)))" using a d(1) by simp
  from next_leaves_breakpoints [OF sim_process sim_runs(2) map_hm_ok inv next_dbg_lookup refl ra sp run]
  have inv': "bp_inv map_hm sim_mem UNIV (\<lambda>_. 0x90) {0x1000, 0x1010} d1" by (simp add: T)
  from bp_inv_mem [OF inv', of "0x1010"] bp_inv_mem [OF inv, of "0x1010"] run show ?thesis
    by (intro exI [of _ d1]) simp
qed

subsection \<open>Sessions\<close>

text \<open>
  A session is a list of events, one for each successful command: the command and the addresses that
  it concerns. \<open>command_step\<close> has one rule for each command and no condition but its success.
\<close>

datatype event = Set_break addr | Clear_break addr | Write_reg | Steps | Resume | Finish addr | Next addr "addr set" | Look

inductive command_step :: "'k tracer \<Rightarrow> ('k, 'u) unwinder \<Rightarrow> 'm hashmap \<Rightarrow> ('h, 'd, 'c, 'l, 'y) dwarf_lib_scheme
    \<Rightarrow> event \<Rightarrow> ('k, 'm, 'h, 'z) Debugger_scheme \<Rightarrow> ('k, 'm, 'h, 'z) Debugger_scheme \<Rightarrow> bool"
  for tr uw hm lib where
  set_break: "apply_breakpoint ret tr hm dbg ENABLE_BREAKPOINT a = (0, dbg') \<Longrightarrow>
    command_step tr uw hm lib (Set_break a) dbg dbg'"
| clear_break: "apply_breakpoint ret tr hm dbg DISABLE_BREAKPOINT a = (0, dbg') \<Longrightarrow>
    command_step tr uw hm lib (Clear_break a) dbg dbg'"
| write_reg: "set_reg_value tr dbg reg v = (0, dbg') \<Longrightarrow> command_step tr uw hm lib Write_reg dbg dbg'"
| steps: "step_loop fuel pc0 ret tr hm cnt dbg = Value (0, dbg') \<Longrightarrow> command_step tr uw hm lib Steps dbg dbg'"
| continue: "handle_continue ret tr hm dbg = (0, dbg') \<Longrightarrow> command_step tr uw hm lib Resume dbg dbg'"
| finish: "step_out ret tr uw hm dbg = (0, dbg') \<Longrightarrow>
    command_step tr uw hm lib (Finish (caller_return tr uw (tracee dbg))) dbg dbg'"
| next_line: "next_run ret tr uw hm lib high_pc rows dbg = (0, dbg') \<Longrightarrow>
    command_step tr uw hm lib
      (Next (caller_return tr uw (tracee (snd (plant_loop ret tr hm lib high_pc rows dbg))))
        (planted lib high_pc (load_address dbg) rows)) dbg dbg'"

inductive session :: "'k tracer \<Rightarrow> ('k, 'u) unwinder \<Rightarrow> 'm hashmap \<Rightarrow> ('h, 'd, 'c, 'l, 'y) dwarf_lib_scheme
    \<Rightarrow> event list \<Rightarrow> ('k, 'm, 'h, 'z) Debugger_scheme \<Rightarrow> ('k, 'm, 'h, 'z) Debugger_scheme \<Rightarrow> bool"
  for tr uw hm lib where
  session_end: "session tr uw hm lib [] dbg dbg"
| session_step: "command_step tr uw hm lib e dbg dbg1 \<Longrightarrow> session tr uw hm lib evs dbg1 dbg' \<Longrightarrow>
    session tr uw hm lib (e # evs) dbg dbg'"

text \<open>The breakpoints that are meant to be set after an event, when those of \<open>S\<close> were set before.\<close>

fun after :: "addr set \<Rightarrow> event \<Rightarrow> addr set" where
  "after S (Set_break a) = insert a S"
| "after S (Clear_break a) = S - {a}"
| "after S (Next a T) = S \<union> T"
| "after S _ = S"

text \<open>
  The orderly use of breakpoints: one is set only where none is, cleared only where one is, and the
  words of different ones, those that \<open>finish\<close> and \<open>next\<close> use included, lie in the code and do not
  overlap.
\<close>

fun orderly :: "addr set \<Rightarrow> addr set \<Rightarrow> event \<Rightarrow> bool" where
  "orderly C S (Set_break a) \<longleftrightarrow> a \<notin> S \<and> spaced (insert a S) \<and> word_in C a"
| "orderly C S (Clear_break a) \<longleftrightarrow> a \<in> S"
| "orderly C S (Finish a) \<longleftrightarrow> spaced (insert a S) \<and> word_in C a"
| "orderly C S (Next a T) \<longleftrightarrow> spaced (insert a (S \<union> T)) \<and> (\<forall>x\<in>insert a T. word_in C x)"
| "orderly C S _ \<longleftrightarrow> True"

fun orderly_events :: "addr set \<Rightarrow> addr set \<Rightarrow> event list \<Rightarrow> bool" where
  "orderly_events C S [] \<longleftrightarrow> True"
| "orderly_events C S (e # evs) \<longleftrightarrow> orderly C S e \<and> orderly_events C (after S e) evs"

lemma write_reg_keeps:
  assumes "process_ok tr mem regs" "set_reg_value tr dbg reg v = (0, dbg')"
  shows "same_store dbg dbg' \<and> mem (tracee dbg') = mem (tracee dbg)"
  using assms(2) process_okD(6,9) [OF assms(1)]
  by (auto simp: set_reg_value_def get_regs_struct_def set_regs_struct_def case_prod_beta same_store_def
      split: if_splits option.splits)

lemma command_step_keeps:
  assumes P: "process_ok tr mem regs" and R: "runs_ok tr mem C" and H: "hashmap_ok hm"
    and step: "command_step tr uw hm lib e dbg dbg'" and o: "orderly C S e"
    and inv: "bp_inv hm mem C orig S dbg" "spaced S"
  shows "bp_inv hm mem C orig (after S e) dbg' \<and> spaced (after S e)"
  using step
proof cases
  case (set_break ret a)
  from enable_new [OF P H inv(1), of a ret] set_break o show ?thesis by auto
next
  case (clear_break ret a)
  from disable_old [OF P H inv(1) _ inv(2), of a ret] clear_break o inv(2) show ?thesis
    by (auto intro: spaced_subset)
next
  case (write_reg reg v)
  from write_reg_keeps [OF P write_reg(2)] write_reg(1) inv show ?thesis
    by (simp add: bp_inv_def same_store_def code_patched_def)
next
  case (steps fuel pc0 ret cnt)
  from run_steps_keeps [OF P R H inv(2,1) step_loop_success [OF steps(2)]] steps(1) inv(2) show ?thesis by simp
next
  case (continue ret)
  have i: "code_patched mem C orig S (tracee dbg)" "holds_bps hm orig S (breakpoints dbg)" "S \<subseteq> S" "spaced S"
    using inv by (simp_all add: bp_inv_parts)
  from continue_keeps [OF P R H i continue(2)] i(2) continue(1) inv(2) show ?thesis
    by (simp add: bp_inv_parts same_store_def)
next
  case (finish ret)
  from step_out_keeps [OF P R H inv(1) refl _ _ finish(2)] o finish(1) inv(2) show ?thesis by simp
next
  case (next_line ret high_pc rows)
  from next_run_keeps [OF P R H inv(1) refl refl _ _ next_line(2)] o next_line(1) show ?thesis
    by (auto intro: spaced_subset)
qed

lemma session_keeps:
  assumes P: "process_ok tr mem regs" and R: "runs_ok tr mem C" and H: "hashmap_ok hm"
  shows "session tr uw hm lib evs dbg dbg' \<Longrightarrow> orderly_events C S evs \<Longrightarrow> bp_inv hm mem C orig S dbg \<Longrightarrow> spaced S \<Longrightarrow>
    bp_inv hm mem C orig (foldl after S evs) dbg' \<and> spaced (foldl after S evs)"
proof (induction arbitrary: S rule: session.induct)
  case (session_step e dbg dbg1 evs dbg')
  from command_step_keeps [OF P R H session_step.hyps(1)] session_step.prems session_step.IH show ?case by simp
qed simp

text \<open>
  Claim C1. The breakpoint invariant holds along every orderly session. Take any sequence of successful
  break, register, step, continue, finish and next commands from a process without breakpoints that
  is orderly (\<open>orderly_events\<close>): breakpoints are set only where none is and cleared only where one is,
  and their words lie in the code and do not overlap, nor do those that \<open>finish\<close> and \<open>next\<close> use. Then
  the code is the original one with traps at exactly the addresses set, and the map holds exactly
  these breakpoints, each with the original word. For other sessions it fails, as the properties of
  \<^verbatim>\<open>Breakpoints\<close> about enabling twice, overlapping words and clearing where nothing is set show.
\<close>

theorem session_invariant:
  assumes "process_ok tr mem regs" "runs_ok tr mem C" "hashmap_ok hm"
    and "bp_inv hm mem C orig {} dbg0"
    and "session tr uw hm lib evs dbg0 dbg" "orderly_events C {} evs"
  shows "bp_inv hm mem C orig (foldl after {} evs) dbg \<and> spaced (foldl after {} evs)"
  using session_keeps [OF assms(1-3,5,6,4)] by (simp add: spaced_def)

theorem session_invariant_witness:
  "\<exists>dbg. session sim_tracer sim_unwinder map_hm forest_lib [Set_break 0x1010, Resume] next_dbg dbg
     \<and> sim_mem (tracee dbg) 0x1010 = 0xcc \<and> sim_mem (tracee dbg) 0x1011 = 0x90"
proof -
  have inv: "bp_inv map_hm sim_mem UNIV (\<lambda>_. 0x90) {} next_dbg"
    using sim_bp_inv by (simp add: bp_inv_def next_dbg_def sim_dbg_def)
  have sp: "spaced (insert 0x1010 {})" "word_in UNIV 0x1010" by (simp_all add: spaced_def word_in_def)
  from enable_new [OF sim_process map_hm_ok inv _ sp, of 7] obtain d1 where
    1: "apply_breakpoint 7 sim_tracer map_hm next_dbg ENABLE_BREAKPOINT 0x1010 = (0, d1)" by auto
  obtain d2 where 2: "handle_continue 7 sim_tracer map_hm d1 = (0, d2)"
    using sim_step_over_code [of 7 map_hm d1] by (simp add: handle_continue_def sim_codes case_prod_beta prod_eq_iff)
  have run: "session sim_tracer sim_unwinder map_hm forest_lib [Set_break 0x1010, Resume] next_dbg d2"
    by (rule session_step [OF command_step.set_break [OF 1] session_step [OF command_step.continue [OF 2] session_end]])
  have "orderly_events UNIV {} [Set_break 0x1010, Resume]" using sp by simp
  from session_invariant [OF sim_process sim_runs(2) map_hm_ok inv run this]
  have inv': "bp_inv map_hm sim_mem UNIV (\<lambda>_. 0x90) {0x1010} d2" by simp
  from bp_inv_mem [OF inv', of "0x1010"] bp_inv_mem [OF inv', of "0x1011"] run show ?thesis
    by (intro exI [of _ d2]) simp
qed

end
