(* ===== verification/Typed_Sessions.thy ===== *)
theory Typed_Sessions
  imports Session_Text Sessions
begin

section \<open>Typed sessions\<close>

text \<open>
  The invariant of the breakpoints over the text that the user types: the commands of the loop, given
  by their words, and the lines that hold them.
\<close>

subsection \<open>Commands that leave the code and the breakpoints alone\<close>

definition calm :: "('k \<Rightarrow> addr \<Rightarrow> byte) \<Rightarrow> ('k, 'm, 'h, 'z) Debugger_scheme \<Rightarrow> ('k, 'm, 'h, 'z) Debugger_scheme \<Rightarrow> bool" where
  "calm mem dbg dbg' \<longleftrightarrow> same_store dbg dbg' \<and> mem (tracee dbg') = mem (tracee dbg)"

lemma calm_intros [intro, simp]:
  "calm mem dbg dbg" "calm mem dbg d \<Longrightarrow> calm mem dbg (fprintf f args d)" "calm mem dbg d \<Longrightarrow> calm mem dbg (d\<lparr>dwarf_dbg := h\<rparr>)"
  by (simp_all add: calm_def same_store_def fprintf_def)

lemma calm_if: "calm mem a b \<Longrightarrow> calm mem a c \<Longrightarrow> calm mem a (if P then b else c)"
  by simp

lemma calm_trans: "calm mem a b \<Longrightarrow> calm mem b c \<Longrightarrow> calm mem a c"
  by (simp add: calm_def same_store_def)

text \<open>Rules over the results of the handlers.\<close>

lemma ends_if: "(P \<Longrightarrow> ends_in Q a) \<Longrightarrow> (\<not> P \<Longrightarrow> ends_in Q b) \<Longrightarrow> ends_in Q (if P then a else b)"
  by simp

lemma ends_option: "(z = None \<Longrightarrow> ends_in Q a) \<Longrightarrow> (\<And>x. z = Some x \<Longrightarrow> ends_in Q (f x)) \<Longrightarrow> ends_in Q (case_option a f z)"
  by (cases z) simp_all

lemma ends_pair: "(\<And>x y. z = (x, y) \<Longrightarrow> ends_in Q (f x y)) \<Longrightarrow> ends_in Q (case_prod f z)"
  by (cases z) simp

lemma ends_sum: "(\<And>x. z = Inl x \<Longrightarrow> ends_in Q (f x)) \<Longrightarrow> (\<And>x. z = Inr x \<Longrightarrow> ends_in Q (g x)) \<Longrightarrow> ends_in Q (case_sum f g z)"
  by (cases z) simp_all

lemma ends_value: "Q s \<Longrightarrow> ends_in Q (Value (x, s))" and ends_crash: "ends_in Q Crash_run" "ends_in Q NoFuel"
  by simp_all

lemma ends_state:
  "ends_in P r \<Longrightarrow> (\<And>x s. P s \<Longrightarrow> ends_in Q (k (x, s))) \<Longrightarrow> ends_in Q (run_bind r k)"
  by (cases r) (auto simp: ends_in_def)

lemma ends_trans: "ends_in (calm mem d) r \<Longrightarrow> calm mem dbg d \<Longrightarrow> ends_in (calm mem dbg) r"
  by (auto simp: ends_in_def intro: calm_trans)

lemmas ends_rules = ends_value ends_crash ends_if ends_option ends_pair ends_sum

lemma peek_calm: "ends_in (calm mem dbg) (handle_peek tr dbg b)"
  unfolding handle_peek_def Let_def by (simp only: prod.case | rule ends_in_bind ends_rules calm_intros)+

lemma where_calm: "ends_in (calm mem dbg) (handle_where fuel tr lib dbg b)"
proof -
  have s: "ends_in (\<lambda>(_, d). calm mem dbg d) (get_subprog_name fuel lib dbg pc)" for pc
    unfolding get_subprog_name_def Let_def
    by (simp only: prod.case | rule ends_in_bind ends_rules calm_intros)+
  show ?thesis
    unfolding handle_where_def Let_def
    by (rule ends_state [OF s] ends_in_bind ends_rules calm_intros | clarsimp split del: if_split split: option.split)+
qed

lemma backtrace_calm: "ends_in (calm mem dbg) (backtrace fuel uw dbg)"
proof -
  have l: "calm mem dbg d \<Longrightarrow> ends_in (calm mem dbg) (backtrace_loop fuel uw cursor d)" for cursor d
  proof (induction fuel arbitrary: cursor d)
    case (Suc fuel)
    show ?case
      unfolding backtrace_loop.simps Let_def
      by (simp only: prod.case | rule ends_rules calm_intros Suc)+
  qed simp
  show ?thesis unfolding backtrace_def
    by (simp only: prod.case | rule l ends_rules calm_intros)+
qed

lemma print_param_calm:
  "calm mem dbg d \<Longrightarrow> ends_in (calm mem dbg) (print_param fuel tr uw b0 show_float lib opt li fp i d)"
  unfolding print_param_def Let_def
  by (simp only: prod.case | rule ends_in_bind ends_rules calm_intros calm_if | assumption)+

lemma param_loop_calm:
  "calm mem dbg d \<Longrightarrow> ends_in (calm mem dbg) (param_loop fuel tr uw b0 show_float lib opt li die fp i d)"
proof (induction fuel arbitrary: fp i d)
  case (Suc fuel)
  show ?case
    unfolding param_loop.simps
    by (simp only: prod.case | rule ends_state [OF print_param_calm] ends_in_bind ends_rules Suc | assumption)+
qed simp

lemma var_context_calm: "ends_in (calm mem dbg) (var_context fuel tr uw b0 lib dbg)"
  unfolding var_context_def Let_def
  by (simp only: prod.case | rule ends_in_bind ends_rules calm_intros)+

lemma var_calm: "ends_in (calm mem dbg) (handle_var fuel tr uw b0 show_float lib dbg b)"
proof -
  have p: "ends_in (calm mem dbg) (handle_param_var fuel tr uw b0 show_float lib dbg opt)" for opt
    unfolding handle_param_var_def Let_def
    by (simp only: prod.case | rule ends_state [OF var_context_calm] param_loop_calm ends_rules calm_intros | assumption)+
  have l: "ends_in (calm mem dbg) (handle_get_local_var fuel tr uw b0 show_float lib dbg nm)" for nm
    unfolding handle_get_local_var_def Let_def
    by (simp only: prod.case | rule ends_state [OF var_context_calm] ends_in_bind ends_rules calm_intros | assumption)+
  show ?thesis
    unfolding handle_var_def
    by (simp only: prod.case | rule p l ends_in_bind ends_rules calm_intros)+
qed

lemma register_calm:
  assumes "process_ok tr mem regs"
  shows "ends_in (calm mem dbg) (handle_register t reg0 tr dbg b)"
proof -
  have w: "calm mem dbg (snd (set_reg_value tr dbg reg v))" for reg v
    using process_okD(6,9) [OF assms]
    by (auto simp: calm_def set_reg_value_def get_regs_struct_def set_regs_struct_def case_prod_beta same_store_def
        split: if_splits option.splits)
  have f: "calm mem dbg d \<Longrightarrow> calm mem dbg (foldl (\<lambda>dbg (abbr, v). fprintf ''%-12s:%llx'' [OStr abbr, OHex v] dbg) d rows)" for d rows
    by (induction rows arbitrary: d) (auto simp del: calm_intros intro: calm_intros)
  show ?thesis
    unfolding handle_register_def Let_def read_register_def write_register_def
    by (simp only: prod.case | rule w f ends_in_bind ends_rules calm_intros)+
qed


subsection \<open>The event of a command\<close>

text \<open>What a break command is about: the action and the address, for addresses and for source lines.\<close>

definition break_target :: "nat \<Rightarrow> ('h, 'd, 'c, 'l, 'y) dwarf_lib_scheme \<Rightarrow> ('k, 'm, 'h, 'z) Debugger_scheme
    \<Rightarrow> string list \<Rightarrow> (BREAKPOINT_OPTIONS \<times> addr) option" where
  "break_target fuel lib dbg ts =
    (case ts of
       act # mode # arg # rest \<Rightarrow>
         if match_breakpoint_option (Some mode) = BREAKPOINT_ARG_MEMADDR then
           Some (match_breakpoint_option (Some act), word_of_int (fst (strtoll 16 arg)) + load_address dbg)
         else (case rest of
             line # _ \<Rightarrow>
               (case get_addr_from_source_line fuel lib arg (word_of_int (fst (strtoll 10 line))) (dwarf_dbg dbg) of
                  Value (_, Some a, _) \<Rightarrow> Some (match_breakpoint_option (Some act), a + load_address dbg)
                | _ \<Rightarrow> None)
           | [] \<Rightarrow> None)
     | _ \<Rightarrow> None)"

lemma take_token_words:
  assumes "holds_tokens b ts"
  shows "\<exists>p b'. take_token b = Value (p, case ts of [] \<Rightarrow> None | t # _ \<Rightarrow> Some t, b') \<and> holds_tokens b' (tl ts)"
  using take_first_word [OF assms] by blast

lemma break_success:
  assumes "holds_tokens b ts" "handle_breakpoint ret fuel tr hm lib dbg b = Value (0, dbg')"
  shows "\<exists>act a h. break_target fuel lib dbg ts = Some (act, a)
    \<and> apply_breakpoint ret tr hm (dbg\<lparr>dwarf_dbg := h\<rparr>) act a = (0, dbg')"
proof -
  have same: "dbg\<lparr>dwarf_dbg := dwarf_dbg dbg\<rparr> = dbg" by simp
  from take_token_words [OF assms(1)] obtain p1 b1 where
    1: "take_token b = Value (p1, case ts of [] \<Rightarrow> None | t # _ \<Rightarrow> Some t, b1)" "holds_tokens b1 (tl ts)" by blast
  from take_token_words [OF 1(2)] obtain p2 b2 where
    2: "take_token b1 = Value (p2, case tl ts of [] \<Rightarrow> None | t # _ \<Rightarrow> Some t, b2)" "holds_tokens b2 (tl (tl ts))" by blast
  from take_token_words [OF 2(2)] obtain p3 b3 where
    3: "take_token b2 = Value (p3, case tl (tl ts) of [] \<Rightarrow> None | t # _ \<Rightarrow> Some t, b3)"
      "holds_tokens b3 (tl (tl (tl ts)))" by blast
  from take_token_words [OF 3(2)] obtain p4 b4 where
    4: "take_token b3 = Value (p4, case tl (tl (tl ts)) of [] \<Rightarrow> None | t # _ \<Rightarrow> Some t, b4)" by blast
  note tokens = 1(1) 2(1) 3(1) 4
  from assms(2) obtain act mode arg rest where ts: "ts = act # mode # arg # rest"
    by (auto simp: handle_breakpoint_def Let_def tokens match_breakpoint_option_def split: list.splits if_splits)
  show ?thesis
  proof (cases "match_breakpoint_option (Some mode) = BREAKPOINT_ARG_MEMADDR")
    case True
    with assms(2) have "apply_breakpoint ret tr hm dbg (match_breakpoint_option (Some act))
        (word_of_int (fst (strtoll 16 arg)) + load_address dbg) = (0, dbg')"
      by (auto simp: handle_breakpoint_def Let_def tokens ts case_prod_beta split: if_splits)
    with True same show ?thesis by (auto simp: break_target_def ts intro!: exI [of _ "dwarf_dbg dbg"])
  next
    case False
    with assms(2) obtain line rest' where r: "rest = line # rest'"
      by (auto simp: handle_breakpoint_def Let_def tokens ts split: if_splits list.splits)
    let ?look = "get_addr_from_source_line fuel lib arg (word_of_int (fst (strtoll 10 line))) (dwarf_dbg dbg)"
    from assms(2) False have "\<exists>res a h. ?look = Value (res, Some a, h)
      \<and> apply_breakpoint ret tr hm (dbg\<lparr>dwarf_dbg := h\<rparr>) (match_breakpoint_option (Some act)) (a + load_address dbg) = (0, dbg')"
      by (cases ?look) (auto simp: handle_breakpoint_def Let_def tokens ts r case_prod_beta split: if_splits option.splits)
    with False show ?thesis by (auto simp: break_target_def ts r)
  qed
qed

text \<open>The event of any command, from the state before it.\<close>

definition first_word :: "string list \<Rightarrow> string option" where
  "first_word ts = (case ts of [] \<Rightarrow> None | t # _ \<Rightarrow> Some t)"

definition command_event :: "nat \<Rightarrow> ('k, 'm, 'u, 'h, 'd, 'c, 'l, 'a, 'e) world \<Rightarrow> ('k, 'm, 'h, 'z) Debugger_scheme
    \<Rightarrow> string list \<Rightarrow> event" where
  "command_event n w dbg ts =
    (case match_command (first_word ts) of
       BREAKPOINT \<Rightarrow>
         (case break_target n (w_dwarf w) dbg (tl ts) of
            None \<Rightarrow> Look
          | Some (act, a) \<Rightarrow> if act = ENABLE_BREAKPOINT then Set_break a else if act = DISABLE_BREAKPOINT then Clear_break a else Look)
     | STEP \<Rightarrow> Steps
     | CONTINUE \<Rightarrow> Resume
     | FINISH \<Rightarrow> Finish (caller_return (w_kernel w) (w_unwinder w) (tracee dbg))
     | NEXT \<Rightarrow>
         (case next_lookup n (w_kernel w) (w_dwarf w) dbg of
            Value (Inr (high_pc, rows), dbg1) \<Rightarrow>
              Next (caller_return (w_kernel w) (w_unwinder w)
                  (tracee (snd (plant_loop (w_ret w) (w_kernel w) (w_map w) (w_dwarf w) high_pc rows dbg1))))
                (planted (w_dwarf w) high_pc (load_address dbg) rows)
          | _ \<Rightarrow> Look)
     | _ \<Rightarrow> Look)"

text \<open>The command succeeds with the result \<open>dbg'\<close>, for all fuel from \<open>n\<close> on.\<close>

definition succeeds :: "nat \<Rightarrow> ('k, 'm, 'u, 'h, 'd, 'c, 'l, 'a, 'e) world \<Rightarrow> string list \<Rightarrow> ('k, 'm, 'h, 'z) Debugger_scheme
    \<Rightarrow> ('k, 'm, 'h, 'z) Debugger_scheme \<Rightarrow> bool" where
  "succeeds n w ts dbg dbg' \<longleftrightarrow> (\<forall>fuel\<ge>n. handle_command fuel w dbg (match_command (first_word ts))
     (word_buffer (tl ts)) = Value (0, dbg'))"

lemma succeeds_not_exit: "succeeds n w ts dbg dbg' \<Longrightarrow> match_command (first_word ts) \<noteq> EXIT"
  by (auto simp: succeeds_def handle_command_def)

definition calm_command :: "COMMAND \<Rightarrow> bool" where
  "calm_command c \<longleftrightarrow> c = REG \<or> c = WHERE \<or> c = BACKTRACE \<or> c = VAR \<or> c = PEEK_DATA"

lemma calm_command_keeps:
  assumes "process_ok (w_kernel w) mem regs" "calm_command c"
  shows "ends_in (calm mem dbg) (handle_command fuel w dbg c b)"
  using assms(2) register_calm [OF assms(1)] where_calm backtrace_calm var_calm peek_calm
  by (auto simp: calm_command_def handle_command_def)

lemma calm_bp_inv: "calm mem dbg dbg' \<Longrightarrow> bp_inv hm mem C orig S dbg \<Longrightarrow> bp_inv hm mem C orig S dbg'"
  by (simp add: bp_inv_def calm_def same_store_def code_patched_def)

lemma bp_inv_dwarf: "bp_inv hm mem C orig S (dbg\<lparr>dwarf_dbg := h\<rparr>) = bp_inv hm mem C orig S dbg"
  by (simp add: bp_inv_def)

subsection \<open>Every command keeps the invariant\<close>

text \<open>A successful command is one of these.\<close>

lemma success_cases:
  assumes "handle_command fuel w dbg c b = Value (0, dbg')"
  obtains "c = BREAKPOINT" | "c = STEP" | "c = CONTINUE" | "c = FINISH" | "c = NEXT" | "calm_command c"
  using assms by (cases c) (auto simp: handle_command_def calm_command_def)

lemma break_keeps:
  assumes P: "process_ok tr mem regs" and R: "runs_ok tr mem C" and H: "hashmap_ok hm"
    and run: "apply_breakpoint ret tr hm (dbg\<lparr>dwarf_dbg := h\<rparr>) act a = (0, dbg')"
    and e: "e = (if act = ENABLE_BREAKPOINT then Set_break a else if act = DISABLE_BREAKPOINT then Clear_break a else Look)"
    and o: "orderly C S e" and inv: "bp_inv hm mem C orig S dbg" "spaced S"
  shows "bp_inv hm mem C orig (after S e) dbg' \<and> spaced (after S e)"
proof -
  have inv': "bp_inv hm mem C orig S (dbg\<lparr>dwarf_dbg := h\<rparr>)" using inv(1) by (simp add: bp_inv_dwarf)
  consider "act = ENABLE_BREAKPOINT" | "act = DISABLE_BREAKPOINT" | "act \<noteq> ENABLE_BREAKPOINT" "act \<noteq> DISABLE_BREAKPOINT" by blast
  then show ?thesis
  proof cases
    case 1
    from command_step_keeps [OF P R H command_step.set_break [OF run [unfolded 1]] _ inv' inv(2)] 1 e o
    show ?thesis by simp
  next
    case 2
    from command_step_keeps [OF P R H command_step.clear_break [OF run [unfolded 2]] _ inv' inv(2)] 2 e o
    show ?thesis by simp
  next
    case 3
    with run have "dbg' = dbg\<lparr>dwarf_dbg := h\<rparr>" by (auto simp: apply_breakpoint_def split: prod.splits if_splits)
    with 3 e inv show ?thesis by (simp add: bp_inv_dwarf)
  qed
qed

lemma step_words:
  assumes "holds_tokens b ts" "handle_step fuel pc ret tr hm dbg b = Value (0, dbg')"
  shows "\<exists>cnt. step_loop fuel pc ret tr hm cnt dbg = Value (0, dbg')"
proof -
  from take_token_words [OF assms(1)] obtain p b' where
    t: "take_token b = Value (p, case ts of [] \<Rightarrow> None | t # _ \<Rightarrow> Some t, b')" by blast
  show ?thesis using assms(2)
    by (cases ts; cases p) (auto simp: handle_step_def t split: prod.splits if_splits)
qed

lemma command_keeps:
  assumes P: "process_ok (w_kernel w) mem regs" and R: "runs_ok (w_kernel w) mem C" and H: "hashmap_ok (w_map w)"
    and words: "\<forall>t\<in>set ts. t \<noteq> [] \<and> NUL \<notin> set t"
    and run: "succeeds n w ts dbg dbg'" and o: "orderly C S (command_event n w dbg ts)"
    and inv: "bp_inv (w_map w) mem C orig S dbg" "spaced S"
  shows "bp_inv (w_map w) mem C orig (after S (command_event n w dbg ts)) dbg' \<and> spaced (after S (command_event n w dbg ts))"
proof -
  define c where "c = match_command (first_word ts)"
  let ?e = "command_event n w dbg ts"
  let ?step = "command_step (w_kernel w) (w_unwinder w) (w_map w) (w_dwarf w)"
  have holds: "holds_tokens (word_buffer (tl ts)) (tl ts)"
    using words by (intro word_buffer_holds) (cases ts; auto)
  from run have h: "handle_command n w dbg c (word_buffer (tl ts)) = Value (0, dbg')" by (simp add: succeeds_def c_def)
  note keep = command_step_keeps [OF P R H _ o inv, of "w_unwinder w" "w_dwarf w"]
  from h show ?thesis
  proof (cases rule: success_cases)
    case 1
    with h have "handle_breakpoint (w_ret w) n (w_kernel w) (w_map w) (w_dwarf w) dbg (word_buffer (tl ts)) = Value (0, dbg')"
      by (simp add: handle_command_def)
    from break_success [OF holds this] obtain act a h where
      "break_target n (w_dwarf w) dbg (tl ts) = Some (act, a)"
      "apply_breakpoint (w_ret w) (w_kernel w) (w_map w) (dbg\<lparr>dwarf_dbg := h\<rparr>) act a = (0, dbg')" by blast
    from break_keeps [OF P R H this(2) _ o inv] this(1) 1 show ?thesis by (simp add: command_event_def c_def)
  next
    case 2
    with h have "handle_step n (w_pc w) (w_ret w) (w_kernel w) (w_map w) dbg (word_buffer (tl ts)) = Value (0, dbg')"
      by (simp add: handle_command_def)
    from step_words [OF holds this] have "?step Steps dbg dbg'" by (auto intro: command_step.steps)
    with 2 keep show ?thesis by (simp add: command_event_def c_def)
  next
    case 3
    with h have "?step Resume dbg dbg'" by (auto simp: handle_command_def intro: command_step.continue)
    with 3 keep show ?thesis by (simp add: command_event_def c_def)
  next
    case 4
    with h have "?step ?e dbg dbg'" by (auto simp: handle_command_def command_event_def c_def intro: command_step.finish)
    with keep show ?thesis by simp
  next
    case 5
    with h have s: "step_in (w_ret w) n (w_kernel w) (w_unwinder w) (w_map w) (w_dwarf w) dbg = Value (0, dbg')"
      by (simp add: handle_command_def)
    then obtain r dbg1 where l: "next_lookup n (w_kernel w) (w_dwarf w) dbg = Value (r, dbg1)"
      by (auto simp: step_in_def)
    from next_lookup_state [OF l] inv(1) have
      i: "bp_inv (w_map w) mem C orig S dbg1" "load_address dbg1 = load_address dbg" by (auto simp: bp_inv_def)
    show ?thesis
    proof (cases r)
      case (Inl code)
      with s l 5 i inv(2) show ?thesis by (simp add: step_in_def command_event_def c_def)
    next
      case (Inr x)
      obtain high_pc rows where x: "x = (high_pc, rows)" by (rule prod.exhaust)
      with s l Inr 5 i(2) have "?step ?e dbg1 dbg'"
        using command_step.next_line [where tr = "w_kernel w" and lib = "w_dwarf w" and dbg = dbg1]
        by (simp add: step_in_def command_event_def c_def)
      from command_step_keeps [OF P R H this o i(1) inv(2)] show ?thesis .
    qed
  next
    case 6
    from calm_command_keeps [OF P 6, of dbg n "word_buffer (tl ts)"] h have "calm mem dbg dbg'" by (simp add: ends_in_def)
    from calm_bp_inv [OF this inv(1)] 6 inv(2) show ?thesis by (auto simp: command_event_def c_def calm_command_def)
  qed
qed

subsection \<open>The text of a session\<close>

text \<open>The words of a command, each with a space behind it, and a line for each command.\<close>

definition plain_word :: "string \<Rightarrow> bool" where
  "plain_word t \<longleftrightarrow> t \<noteq> [] \<and> (\<forall>c\<in>set t. \<not> is_whitespace c \<and> c \<noteq> CHR '';'' \<and> c \<noteq> NUL)"

definition unwords :: "string list \<Rightarrow> string" where
  "unwords ts = concat (map (\<lambda>t. t @ '' '') ts)"

definition command_line :: "string list \<Rightarrow> string" where
  "command_line ts = unwords ts @ '';''"

lemma unwords_clean: "\<forall>t\<in>set ts. plain_word t \<Longrightarrow> CHR '';'' \<notin> set (unwords ts) \<and> NUL \<notin> set (unwords ts)"
  by (auto simp: unwords_def plain_word_def)

lemma scan_one: "\<forall>c\<in>set t. \<not> is_whitespace c \<Longrightarrow> u @ t \<noteq> [] \<Longrightarrow>
    scan_words u (t @ CHR '' '' # r) = (case scan_words [] r of (ts, v) \<Rightarrow> ((u @ t) # ts, v))"
  by (induction t arbitrary: u) (auto simp: is_whitespace_def)

lemma scan_unwords: "\<forall>t\<in>set ts. plain_word t \<Longrightarrow> scan_words [] (unwords ts) = (ts, [])"
proof (induction ts)
  case (Cons t ts)
  then have t: "\<forall>c\<in>set t. \<not> is_whitespace c" "[] @ t \<noteq> []" by (simp_all add: plain_word_def)
  have "unwords (t # ts) = t @ CHR '' '' # unwords ts" by (simp add: unwords_def)
  with scan_one [OF t, of "unwords ts"] Cons show ?case by simp
qed (simp add: unwords_def)

lemma words_of_line:
  assumes "\<forall>t\<in>set ts. plain_word t" "p = [] \<or> p = '' ''"
  shows "split_commands p (command_line ts) = ([p @ unwords ts], [])" "text_words (p @ unwords ts) = ts"
proof -
  have "scan_words [] (p @ unwords ts) = scan_words [] (unwords ts)" using assms(2) by (auto simp: is_whitespace_def)
  with scan_unwords [OF assms(1)] show "text_words (p @ unwords ts) = ts" by (simp add: text_words_def)
  show "split_commands p (command_line ts) = ([p @ unwords ts], [])"
    using split_first [of "unwords ts" p "[]"] unwords_clean [OF assms(1)] by (simp add: command_line_def)
qed

text \<open>The commands of a session all succeed; nothing else is asked of them.\<close>

inductive typed_session :: "nat \<Rightarrow> ('k, 'm, 'u, 'h, 'd, 'c, 'l, 'a, 'e) world \<Rightarrow> string list list \<Rightarrow> event list
    \<Rightarrow> ('k, 'm, 'h, 'z) Debugger_scheme \<Rightarrow> ('k, 'm, 'h, 'z) Debugger_scheme \<Rightarrow> bool"
  for n w where
  typed_end: "typed_session n w [] [] dbg dbg"
| typed_line: "succeeds n w ts dbg dbg1 \<Longrightarrow> typed_session n w tss evs (print_verdict 0 dbg1) dbg' \<Longrightarrow>
    typed_session n w (ts # tss) (command_event n w dbg ts # evs) dbg dbg'"

lemma verdict_bp_inv: "bp_inv hm mem C orig S (print_verdict r dbg) = bp_inv hm mem C orig S dbg"
  by (simp add: bp_inv_def print_verdict_def fprintf_def)

lemma typed_session_keeps:
  assumes P: "process_ok (w_kernel w) mem regs" and R: "runs_ok (w_kernel w) mem C" and H: "hashmap_ok (w_map w)"
  shows "typed_session n w tss evs dbg dbg' \<Longrightarrow> orderly_events C S evs \<Longrightarrow> \<forall>ts\<in>set tss. \<forall>t\<in>set ts. plain_word t \<Longrightarrow>
    bp_inv (w_map w) mem C orig S dbg \<Longrightarrow> spaced S \<Longrightarrow>
    bp_inv (w_map w) mem C orig (foldl after S evs) dbg' \<and> spaced (foldl after S evs)"
proof (induction arbitrary: S rule: typed_session.induct)
  case (typed_line ts dbg dbg1 tss evs dbg')
  from typed_line.prems(2) have "\<forall>t\<in>set ts. t \<noteq> [] \<and> NUL \<notin> set t" by (auto simp: plain_word_def)
  from command_keeps [OF P R H this typed_line.hyps(1)] typed_line.prems typed_line.IH show ?case
    by (simp add: verdict_bp_inv)
qed simp

text \<open>The loop on words carries out a session from its text.\<close>

lemma typed_session_runs:
  assumes "typed_session n w tss evs dbg dbg'" "\<forall>ts\<in>set tss. \<forall>t\<in>set ts. plain_word t" "Suc n \<le> fuel"
    and "cmnd \<noteq> EXIT" "p = [] \<or> p = '' ''"
  shows "run_lines (Suc fuel) w p (map command_line tss) 0 cmnd dbg = Value dbg'"
  using assms(1,2,4,5)
proof (induction arbitrary: cmnd p rule: typed_session.induct)
  case (typed_line ts dbg dbg1 tss evs dbg')
  define c where "c = match_command (first_word ts)"
  have c: "c \<noteq> EXIT" using succeeds_not_exit [OF typed_line.hyps(1)] by (simp add: c_def)
  from typed_line.hyps(1) assms(3) have
    h: "handle_command fuel w dbg c (word_buffer (tl ts)) = Value (0, dbg1)" by (simp add: succeeds_def c_def)
  obtain f where "fuel = Suc f" using assms(3) by (cases fuel) auto
  then have "run_commands (Suc fuel) w cmnd [ts] dbg = Value (0, c, print_verdict 0 dbg1)"
    using c h by (simp add: c_def first_word_def)
  moreover have "\<forall>t\<in>set ts. plain_word t" using typed_line.prems(1) by simp
  note words = words_of_line [OF this typed_line.prems(3)]
  moreover have "run_lines (Suc fuel) w '' '' (map command_line tss) 0 c (print_verdict 0 dbg1) = Value dbg'"
    using typed_line.IH [of c "'' ''"] typed_line.prems(1) c by simp
  ultimately show ?case using typed_line.prems(2) by simp
qed simp

lemma session_texts:
  assumes "\<forall>ts\<in>set tss. (\<forall>t\<in>set ts. plain_word t) \<and> length (unwords ts) + 1 < CMD_MAX_SIZE" "p = [] \<or> p = '' ''"
  shows "\<forall>c\<in>set (command_texts p (map command_line tss)). length c < CMD_MAX_SIZE"
  using assms
proof (induction tss arbitrary: p)
  case (Cons ts tss)
  have w: "\<forall>t\<in>set ts. plain_word t" using Cons.prems(1) by simp
  from Cons.IH [of "'' ''"] Cons.prems show ?case
    by (auto simp: words_of_line(1) [OF w Cons.prems(2)] CMD_MAX_SIZE_def)
qed simp

text \<open>
  Claim C2. The invariant of the breakpoints along what the user types. Take any list of commands, typed one
  to a line, that all succeed from a process without breakpoints, and whose events are orderly: as the
  state before each command shows, breakpoints are set only where none is and cleared only where one
  is, and no words overlap, nor do they with those that \<open>finish\<close> and \<open>next\<close> use. Then the loop of the
  debugger, from its empty buffers, reads the lines and ends with the state that the commands lead to,
  in which the code is the original one with traps at the addresses set, which the map holds. All
  commands are allowed; break commands name addresses or source lines.
\<close>

theorem typed_session_invariant:
  assumes "process_ok (w_kernel w) mem regs" "runs_ok (w_kernel w) mem C" "hashmap_ok (w_map w)"
    and "bp_inv (w_map w) mem C orig {} dbg0"
    and "typed_session n w tss evs dbg0 dbg" "orderly_events C {} evs"
    and "\<forall>ts\<in>set tss. (\<forall>t\<in>set ts. plain_word t) \<and> length (unwords ts) + 1 < CMD_MAX_SIZE"
    and "n + 2 \<le> fuel" "cmnd \<noteq> EXIT"
  shows "line_loop fuel w (map command_line tss) 0 cmnd (new_buffer CMD_MAX_SIZE garbage) (new_buffer 0 []) dbg0 = Value dbg
    \<and> bp_inv (w_map w) mem C orig (foldl after {} evs) dbg \<and> spaced (foldl after {} evs)"
proof -
  have plain: "\<forall>ts\<in>set tss. \<forall>t\<in>set ts. plain_word t" using assms(7) by blast
  obtain f where f: "fuel = Suc f" "Suc n \<le> f" using assms(8) by (cases fuel) auto
  have "\<forall>x\<in>set (map command_line tss). NUL \<notin> set x"
    using plain unwords_clean by (auto simp: command_line_def)
  from line_loop_start [OF this session_texts [OF assms(7)], of fuel w 0 cmnd garbage dbg0]
    typed_session_runs [OF assms(5) plain f(2) assms(9), of "[]"]
  have "line_loop fuel w (map command_line tss) 0 cmnd (new_buffer CMD_MAX_SIZE garbage) (new_buffer 0 []) dbg0 = Value dbg"
    by (simp add: f(1))
  moreover have "spaced {}" by (simp add: spaced_def)
  ultimately show ?thesis using typed_session_keeps [OF assms(1-3,5,6) plain assms(4)] by simp
qed

theorem typed_session_invariant_witness:
  "\<forall>w :: (sim, addr \<Rightarrow> Breakpoint option, 'u, unit, 'd, 'c, 'l, 'a, 'e) world.
     \<exists>dbg. line_loop 2 (w\<lparr>w_kernel := sim_tracer, w_map := map_hm\<rparr>)
         [''break enable addr 1010 ;'', ''continue ;''] 0 INVALID_CMD
         (new_buffer CMD_MAX_SIZE []) (new_buffer 0 []) (sim_dbg (\<lambda>_. None) ()) = Value dbg
       \<and> sim_mem (tracee dbg) 0x1010 = 0xcc \<and> sim_mem (tracee dbg) 0x1011 = 0x90"
proof (intro allI)
  fix w :: "(sim, addr \<Rightarrow> Breakpoint option, 'u, unit, 'd, 'c, 'l, 'a, 'e) world"
  let ?w = "w\<lparr>w_kernel := sim_tracer, w_map := map_hm\<rparr>"
  let ?d = "sim_dbg (\<lambda>_ :: addr. None :: Breakpoint option) ()"
  let ?b = "[''break'', ''enable'', ''addr'', nat_text 14 0x1010]"
  have hyp: "process_ok (w_kernel ?w) sim_mem sim_regs" "runs_ok (w_kernel ?w) sim_mem UNIV" "hashmap_ok (w_map ?w)"
    "bp_inv (w_map ?w) sim_mem UNIV (\<lambda>_. 0x90) {} ?d"
    using sim_process sim_runs(2) map_hm_ok sim_bp_inv by simp_all
  have a: "(0x1010 :: addr) = of_nat 0x1010 + load_address ?d" "(0x1010 :: nat) < 2 ^ 63" by (simp_all add: sim_dbg_def)
  have sp: "spaced (insert 0x1010 {})" "word_in UNIV 0x1010" by (simp_all add: spaced_def word_in_def)
  from enable_new [OF sim_process map_hm_ok sim_bp_inv _ sp, of "w_ret w"] obtain d1 where
    1: "apply_breakpoint (w_ret w) sim_tracer map_hm ?d ENABLE_BREAKPOINT 0x1010 = (0, d1)" by auto
  have t: "nat_text 14 0x1010 = ''1010''" by (simp add: nat_text.simps digit_char_def)
  have "\<forall>t\<in>set (tl ?b). t \<noteq> [] \<and> NUL \<notin> set t" by (simp add: t)
  from word_buffer_holds [OF this] have H: "holds_tokens (word_buffer [''enable'', ''addr'', nat_text 14 0x1010])
      [''enable'', ''addr'', nat_text 14 0x1010]" by simp
  have c: "match_command (first_word ?b) = BREAKPOINT" "match_command (first_word [''continue'']) = CONTINUE"
    by (simp_all add: match_command_def first_word_def)
  have "handle_command fuel ?w ?d BREAKPOINT (word_buffer (tl ?b)) = Value (0, d1)" for fuel
    using enable_words [OF H a(2), of "w_ret w" fuel sim_tracer map_hm "w_dwarf w" ?d, folded a(1)] 1
    by (simp add: handle_command_def)
  then have s1: "succeeds 0 ?w ?b ?d d1" by (simp only: succeeds_def c simp_thms)
  obtain d2 where "handle_continue (w_ret w) sim_tracer map_hm (print_verdict 0 d1) = (0, d2)"
    using sim_step_over_code [of "w_ret w" map_hm "print_verdict 0 d1"]
    by (simp add: handle_continue_def sim_codes case_prod_beta prod_eq_iff)
  then have s2: "succeeds 0 ?w [''continue''] (print_verdict 0 d1) d2"
    by (simp only: succeeds_def c) (simp add: handle_command_def)
  have "strtoll 16 (nat_text 14 0x1010) = (0x1010, [])" using strtoll_nat_text(1) [of 14 "0x1010"] by (simp add: clamp_ll_def)
  moreover have "load_address ?d = 0" by (simp add: sim_dbg_def)
  ultimately have e1: "command_event 0 ?w ?d ?b = Set_break 0x1010"
    unfolding command_event_def c by (simp add: break_target_def match_breakpoint_option_def)
  have e2: "command_event 0 ?w (print_verdict 0 d1) [''continue''] = Resume"
    unfolding command_event_def c by simp
  have ses: "typed_session 0 ?w [?b, [''continue'']] [Set_break 0x1010, Resume] ?d (print_verdict 0 d2)"
    using typed_line [OF s1 typed_line [OF s2 typed_end]] unfolding e1 e2 .
  have ord: "orderly_events UNIV {} [Set_break 0x1010, Resume]" using sp by simp
  have fit: "\<forall>ts\<in>set [?b, [''continue'']]. (\<forall>t\<in>set ts. plain_word t) \<and> length (unwords ts) + 1 < CMD_MAX_SIZE"
    by (simp add: t plain_word_def is_whitespace_def unwords_def CMD_MAX_SIZE_def)
  have lines: "map command_line [?b, [''continue'']] = [''break enable addr 1010 ;'', ''continue ;'']"
    by (simp add: t command_line_def unwords_def)
  have "line_loop 2 ?w [''break enable addr 1010 ;'', ''continue ;''] 0 INVALID_CMD (new_buffer CMD_MAX_SIZE [])
      (new_buffer 0 []) ?d = Value (print_verdict 0 d2)
    \<and> bp_inv (w_map ?w) sim_mem UNIV (\<lambda>_. 0x90) {0x1010} (print_verdict 0 d2)"
    using typed_session_invariant [OF hyp ses ord fit, of 2 INVALID_CMD "[]"]
    unfolding lines by (simp del: line_loop.simps)
  then show "\<exists>dbg. line_loop 2 ?w [''break enable addr 1010 ;'', ''continue ;''] 0 INVALID_CMD (new_buffer CMD_MAX_SIZE [])
         (new_buffer 0 []) ?d = Value dbg \<and> sim_mem (tracee dbg) 0x1010 = 0xcc \<and> sim_mem (tracee dbg) 0x1011 = 0x90"
    using bp_inv_mem [of map_hm sim_mem UNIV "\<lambda>_. 0x90" "{0x1010}" "print_verdict 0 d2"]
    by (intro exI [of _ "print_verdict 0 d2"]) (simp del: line_loop.simps)
qed

end
