(* ===== verification/Spec2Isabelle.thy ===== *)
theory Spec2Isabelle
  imports Cmdline Eval_Expr Die_Search Var_Locations Typed_Sessions
begin

text \<open>
  VDebugger, a debugger for x86-64 Linux written in C (\<^verbatim>\<open>src/debugger\<close>).

  \<^bold>\<open>The program.\<close> \<^verbatim>\<open>main.c\<close> forks and executes the program to be debugged under \<^verbatim>\<open>ptrace\<close>;
  \<^verbatim>\<open>debugger.c\<close> reads lines, splits them into commands and words (\<^verbatim>\<open>cmdline.c\<close>), and carries the
  commands out: breakpoints, stepping, registers, memory, position, call chain, variables. For source
  lines, functions and variables it asks libdwarf (\<^verbatim>\<open>dwarf_info.c\<close>), and it evaluates DWARF location
  expressions itself (\<^verbatim>\<open>loc_expr.c\<close>, \<open>evaluate_expr\<close> in \<^verbatim>\<open>debugger.c\<close>). \<^verbatim>\<open>registers.c\<close> holds the names
  and DWARF numbers of the registers.

  \<^bold>\<open>Theories and code.\<close>
  \<^item> \<^verbatim>\<open>VDB_Prelude\<close>: widths, the result type \<open>run\<close>, C strings, \<open>strtoll\<close> and \<open>%llu\<close>, \<open>%llx\<close>, \<open>%lli\<close>.
  \<^item> \<^verbatim>\<open>Registers\<close>: \<^verbatim>\<open>registers.c\<close>. The tables filled from the packed string, the look-ups both ways,
    \<open>get_register\<close> as a load and a store on the register struct.
  \<^item> \<^verbatim>\<open>Cmdline\<close>: \<^verbatim>\<open>cmdline.c\<close>. The byte buffer with its cursors, \<open>parse_input\<close>, \<open>next_token\<close> and the
    matchers; a buffer is an array with explicit bounds, so that an access outside it is a result.
  \<^item> \<^verbatim>\<open>Loc_Expr\<close>: \<^verbatim>\<open>loc_expr.c\<close>. The stack of an expression and every operation code.
  \<^item> \<^verbatim>\<open>Eval_Expr\<close>: \<open>evaluate_expr\<close>, the loop over the operations with its branches.
  \<^item> \<^verbatim>\<open>Dwarf_Info\<close>, \<^verbatim>\<open>Line_Table\<close>, \<^verbatim>\<open>Die_Search\<close>: \<^verbatim>\<open>dwarf_info.c\<close>. Units and subprograms of an address,
    line tables, the children of an entry by tag, a local variable by name with the handles it frees.
  \<^item> \<^verbatim>\<open>Tracee\<close>: the state of the debugger, signals, registers and memory of the process.
  \<^item> \<^verbatim>\<open>Breakpoints\<close>: the records, their hash map, the patching of the code, the break command.
  \<^item> \<^verbatim>\<open>Stepping\<close>: stepping over a breakpoint, \<open>step\<close>, \<open>finish\<close>, \<open>next\<close>, \<open>continue\<close>; \<^verbatim>\<open>Sessions\<close>: sequences
    of these commands as events of a step relation, and the condition \<open>orderly_events\<close> on them.
  \<^item> \<^verbatim>\<open>Commands\<close>: \<open>reg\<close>, \<open>peek\<close>, \<open>where\<close>, \<open>backtrace\<close>.
  \<^item> \<^verbatim>\<open>Variables\<close>: \<open>var\<close>, with the location, the type and the text of a value; \<^verbatim>\<open>Var_Values\<close> and
    \<^verbatim>\<open>Var_Locations\<close> hold its properties.
  \<^item> \<^verbatim>\<open>Repl\<close>: \<open>handle_command\<close>, the loops of \<open>run_debugger\<close>, \<open>new_debugger\<close>, \<open>main\<close>; \<^verbatim>\<open>Repl_Session\<close>,
    \<^verbatim>\<open>Startup\<close>, \<^verbatim>\<open>Session_Text\<close> and \<^verbatim>\<open>Typed_Sessions\<close> hold its properties.

  \<^bold>\<open>Conventions.\<close> \<open>UWORD\<close> and \<open>WORD\<close> are 64-bit words, signedness is in the operations. A C \<open>int\<close> that is
  only a code is an \<open>int\<close>. A function with an output pointer returns its code and the value. The type
  \<open>run\<close> has three outcomes: a value, \<open>Crash_run\<close> for undefined behaviour that the model follows (an
  access outside an array, \<open>NULL\<close>, a double free, an indeterminate pointer), and \<open>NoFuel\<close>. Where the C
  code reads an indeterminate value that is not a pointer, the value is an argument of the definition,
  and the theorems hold for all of them.

  \<^bold>\<open>Parameters.\<close> Code outside the repository is an argument: the kernel (record \<open>tracer\<close>), libdwarf
  (records \<open>dwarf_lib\<close> and \<open>dwarf_vars\<close>), libunwind (record \<open>unwinder\<close>), the hash map (record \<open>hashmap\<close>),
  the lines that \<^verbatim>\<open>linenoise\<close> returns, \<^verbatim>\<open>popen\<close> and \<^verbatim>\<open>fork\<close> (record \<open>system\<close>), the text of a \<open>double\<close>. What
  the theorems rely on is stated as a predicate that documented behaviour satisfies and a concrete
  instance meets: \<open>process_ok\<close> (memory reads back as written; so do registers when only user registers
  change, while the kernel may refuse to change the others), \<open>runs_ok\<close> (the process does not write its
  code), \<open>hashmap_ok\<close> (the laws of a map), \<open>die_forest\<close> (navigation in a forest of entries), \<open>headers\<close>
  (the units in order). The instances \<open>sim_tracer\<close>, \<open>strict_tracer\<close>, \<open>map_hm\<close>, \<open>forest_lib\<close>,
  \<open>sample_lib\<close> and \<open>sim_unwinder\<close> serve the witnesses.

  \<^bold>\<open>What is shown.\<close>
  \<^item> Layers: \<open>parse_opcode\<close> implements a machine on lists; the break commands implement a set of
    addresses over the original code, and this invariant holds along orderly sessions of commands (no
    breakpoint set twice, cleared where none is, or overlapping another); the loop on byte buffers is
    the loop on the words of the text, whatever the handlers do; a typed break command ends with the
    trap in the code, and the invariant holds along the lines of an orderly typed session; the text of
    a value is the rendering of its C type on the bytes of the process.
  \<^item> Searches: the binary search and the searches for units, subprograms, source lines, parameters,
    members and local variables return what their references say, on every branch.
  \<^item> Round trips: the packed register table, register names and numbers, a register written and read
    by commands, the load address.
  \<^item> Termination: straight expressions, the step loop, backtraces, the printing of values return with
    enough fuel; the forward branch of an expression never does.
  \<^item> Errors: the branches in which the code does not do what its comments or the DWARF standard say are
    stated as they are; the theorems say what happens instead.

  \<^bold>\<open>Fuel.\<close> Loops over something finite are structural or have a measure. Fuel bounds the loops that
  follow libdwarf or libunwind, the evaluation of an expression with branches, the count of the step
  command and the command loop. Each theorem states how much is enough: one unit for each entry,
  operation, step, frame or command, and one more; the printing of a value states that there is a bound
  from which on the result is the same.

  \<^bold>\<open>Locales.\<close> \<open>token_source\<close> (handing out tokens; the command buffer), \<open>bounded_stack\<close> (the stack of an
  expression), \<open>table_search\<close> (the register look-ups by name and by number), \<open>cu_scan\<close> (the scans over
  units by address and by file name), \<open>tag_iterator\<close> (the iterators over parameters and members): each
  is interpreted on the definitions of the model, and the properties rest on the facts of the
  interpretation.

  \<^bold>\<open>Not modelled.\<close> The sources of libdwarf, libunwind, \<^verbatim>\<open>linenoise\<close> and the hash map (\<^verbatim>\<open>ext/\<close>, git
  submodules) are not in the repository. Freeing memory matters only where a handle is used again
  (\<^verbatim>\<open>Die_Search\<close>, \<^verbatim>\<open>Variables\<close>); elsewhere it is left out, and so are leaks. The messages that
  \<open>evaluate_expr\<close> prints and the history of \<^verbatim>\<open>linenoise\<close> are left out. What the child does between \<^verbatim>\<open>fork\<close>
  and \<^verbatim>\<open>execvp\<close> happens in the kernel. \<^verbatim>\<open>example/\<close> holds programs to be debugged.
\<close>

end
